theory Spec2Isabelle
  imports Main "HOL-Library.AList" "HOL-Library.Char_ord" "HOL-Library.List_Lexorder"
begin

text \<open>
  The store-and-forward upload cache of \<open>salt/base/ext/_utils/cloud_cache.py\<close>: telemetry
  entries are queued in Redis lists and shipped in batches to a cloud endpoint, with a
  work queue per source, retry queues that count their attempts in their names, and dated
  fail queues. The theory models the Redis commands the cache issues, the cache itself
  with the network and the clock as parameters, and proves properties of the queue
  transitions.
\<close>

section \<open>The key-value store\<close>

text \<open>
  The cache keeps every queue as a Redis list. The store is an association list from key
  to list contents, read through \<open>map_of\<close>; a second association list holds the
  time-to-live set by \<open>EXPIRE\<close>. Redis has no empty lists: a key whose list becomes
  empty is removed, so a key exists exactly when its list is non-empty. The model records
  the time-to-live of a key and never removes a key for it: the expiry of keys, as
  wall-clock time passes or at once for a time-to-live that is not positive, is outside
  the model.
\<close>

type_synonym entry = string

record redis =
  keyspace :: "(string \<times> entry list) list"
  expiry :: "(string \<times> int) list"

definition redis_lrange :: "redis \<Rightarrow> string \<Rightarrow> entry list" where
  \<comment> \<open>\<open>LRANGE key 0 -1\<close>: the whole list, head first; empty for a missing key\<close>
  "redis_lrange st k = (case map_of (keyspace st) k of None \<Rightarrow> [] | Some xs \<Rightarrow> xs)"

definition redis_exists :: "redis \<Rightarrow> string \<Rightarrow> bool" where
  "redis_exists st k = (redis_lrange st k \<noteq> [])"

definition redis_ttl :: "redis \<Rightarrow> string \<Rightarrow> int option" where
  "redis_ttl st k = map_of (expiry st) k"

definition redis_delete :: "redis \<Rightarrow> string \<Rightarrow> redis" where
  \<comment> \<open>\<open>DEL key\<close>\<close>
  "redis_delete st k =
     st\<lparr>keyspace := AList.delete k (keyspace st), expiry := AList.delete k (expiry st)\<rparr>"

definition set_list :: "redis \<Rightarrow> string \<Rightarrow> entry list \<Rightarrow> redis" where
  \<comment> \<open>store new contents under a key; the key disappears when the list is empty\<close>
  "set_list st k xs =
     (if xs = [] then redis_delete st k else st\<lparr>keyspace := AList.update k xs (keyspace st)\<rparr>)"

definition redis_lpush :: "redis \<Rightarrow> string \<Rightarrow> entry list \<Rightarrow> redis" where
  \<comment> \<open>\<open>LPUSH key v1 v2 ...\<close>: the values are pushed at the head one after the other\<close>
  "redis_lpush st k vs = set_list st k (rev vs @ redis_lrange st k)"

definition redis_rpoplpush :: "redis \<Rightarrow> string \<Rightarrow> string \<Rightarrow> entry option \<times> redis" where
  \<comment> \<open>\<open>RPOPLPUSH src dst\<close>: the tail of \<open>src\<close> becomes the head of \<open>dst\<close>; nil on a
     missing source\<close>
  "redis_rpoplpush st src dst =
     (case redis_lrange st src of
        [] \<Rightarrow> (None, st)
      | x # xs \<Rightarrow>
          (let v = last (x # xs);
               st1 = set_list st src (butlast (x # xs))
           in (Some v, redis_lpush st1 dst [v])))"

definition redis_expire :: "redis \<Rightarrow> string \<Rightarrow> int \<Rightarrow> redis" where
  \<comment> \<open>\<open>EXPIRE key seconds\<close>: records the time-to-live of an existing key\<close>
  "redis_expire st k t =
     (if redis_exists st k then st\<lparr>expiry := AList.update k t (expiry st)\<rparr> else st)"

fun glob_match :: "string \<Rightarrow> string \<Rightarrow> bool" where
  "glob_match [] s = (s = [])"
| "glob_match (p # ps) [] = (p = CHR ''*'' \<and> glob_match ps [])"
| "glob_match (p # ps) (x # xs) =
     (if p = CHR ''*'' then glob_match ps (x # xs) \<or> glob_match (p # ps) xs
      else p = x \<and> glob_match ps xs)"

definition redis_keys :: "redis \<Rightarrow> string \<Rightarrow> string list" where
  \<comment> \<open>\<open>KEYS pattern\<close>, for the patterns of literal characters and \<open>*\<close> that the cache uses\<close>
  "redis_keys st pattern =
     filter (\<lambda>k. redis_exists st k \<and> glob_match pattern k) (remdups (map fst (keyspace st)))"

datatype error = HTTPError string | ResponseError string

definition redis_renamenx :: "redis \<Rightarrow> string \<Rightarrow> string \<Rightarrow> error + (bool \<times> redis)" where
  \<comment> \<open>\<open>RENAMENX src dst\<close>: an error reply for a missing source, 0 when \<open>dst\<close> exists,
     otherwise the list and its time-to-live move to \<open>dst\<close>\<close>
  "redis_renamenx st src dst =
     (if \<not> redis_exists st src then Inl (ResponseError ''no such key'')
      else if redis_exists st dst then Inr (False, st)
      else
        (let xs = redis_lrange st src;
             t = redis_ttl st src;
             st1 = set_list (redis_delete st src) dst xs
         in Inr (True, case t of None \<Rightarrow> st1 | Some s \<Rightarrow> redis_expire st1 dst s)))"

subsection \<open>The server-side script\<close>

text \<open>
  \<open>DEQUEUE_BATCH_LUA\<close>, with \<open>KEYS[1]\<close> the source, \<open>KEYS[2]\<close> the destination and
  \<open>ARGV[1]\<close> the count. The numeric \<open>for\<close> loop runs at most \<open>ARGV[1]\<close> times (not at
  all for a count below 1) and stops at the first nil reply.
\<close>

fun rpoplpush_loop :: "nat \<Rightarrow> string \<Rightarrow> string \<Rightarrow> entry list \<Rightarrow> redis \<Rightarrow> entry list \<times> redis" where
  "rpoplpush_loop 0 src dst ret st = (ret, st)"
| "rpoplpush_loop (Suc i) src dst ret st =
     (case redis_rpoplpush st src dst of
        (None, st') \<Rightarrow> (ret, st')
      | (Some val, st') \<Rightarrow> rpoplpush_loop i src dst (ret @ [val]) st')"

definition DEQUEUE_BATCH_LUA :: "string \<Rightarrow> string \<Rightarrow> int \<Rightarrow> redis \<Rightarrow> entry list \<times> redis" where
  "DEQUEUE_BATCH_LUA key1 key2 argv1 st =
     (if redis_exists st key2 then (redis_lrange st key2, st)
      else if redis_exists st key1 then rpoplpush_loop (nat argv1) key1 key2 [] st
      else ([], st))"

definition dequeue_batch :: "string \<Rightarrow> string \<Rightarrow> int \<Rightarrow> redis \<Rightarrow> entry list \<times> redis" where
  "dequeue_batch source destination count st = DEQUEUE_BATCH_LUA source destination count st"

section \<open>Queue names\<close>

definition PENDING_QUEUE :: string where "PENDING_QUEUE = ''pend''"
definition PENDING_WORK_QUEUE :: string where "PENDING_WORK_QUEUE = ''pend.work''"
definition FAIL_WORK_QUEUE :: string where "FAIL_WORK_QUEUE = ''fail.work''"

text \<open>
  Decimal numerals: \<open>str_nat\<close> is Python's \<open>"{:d}".format(n)\<close> for \<open>n \<ge> 0\<close>,
  \<open>int_of_digits\<close> is \<open>int(s)\<close> on a string of decimal digits.
\<close>

definition is_digit :: "char \<Rightarrow> bool" where
  "is_digit c = (c \<in> set ''0123456789'')"

definition digit_char :: "nat \<Rightarrow> char" where
  "digit_char d = ''0123456789'' ! d"

definition digit_val :: "char \<Rightarrow> nat" where
  "digit_val c = length (takeWhile (\<lambda>d. d \<noteq> c) ''0123456789'')"

fun str_nat :: "nat \<Rightarrow> string" where
  "str_nat n = (if n < 10 then [digit_char n] else str_nat (n div 10) @ [digit_char (n mod 10)])"

declare str_nat.simps [simp del]

definition str_int :: "int \<Rightarrow> string" where
  "str_int i = (if i < 0 then CHR ''-'' # str_nat (nat (- i)) else str_nat (nat i))"

definition int_of_digits :: "string \<Rightarrow> nat" where
  "int_of_digits s = foldl (\<lambda>a c. 10 * a + digit_val c) 0 s"

text \<open>
  \<open>datetime.datetime.utcnow()\<close> and the two name formats, \<open>retr_{:%Y%m%d%H%M%S%f}_#{:d}\<close>
  and \<open>fail_{:%Y%m%d}\<close>: every field is a decimal numeral padded with zeros to its width.
\<close>

record datetime =
  year :: nat
  month :: nat
  day :: nat
  hour :: nat
  minute :: nat
  second :: nat
  microsecond :: nat

definition zfill :: "nat \<Rightarrow> string \<Rightarrow> string" where
  "zfill w s = replicate (w - length s) CHR ''0'' @ s"

definition strftime_date :: "datetime \<Rightarrow> string" where
  \<comment> \<open>\<open>%Y%m%d\<close>\<close>
  "strftime_date t =
     zfill 4 (str_nat (year t)) @ zfill 2 (str_nat (month t)) @ zfill 2 (str_nat (day t))"

definition strftime_time :: "datetime \<Rightarrow> string" where
  \<comment> \<open>\<open>%H%M%S%f\<close>\<close>
  "strftime_time t =
     zfill 2 (str_nat (hour t)) @ zfill 2 (str_nat (minute t)) @ zfill 2 (str_nat (second t)) @
     zfill 6 (str_nat (microsecond t))"

definition RETRY_QUEUE :: "datetime \<Rightarrow> int \<Rightarrow> string" where
  "RETRY_QUEUE t n = ''retr_'' @ strftime_date t @ strftime_time t @ ''_#'' @ str_int n"

definition FAIL_QUEUE :: "datetime \<Rightarrow> string" where
  "FAIL_QUEUE t = ''fail_'' @ strftime_date t"

subsection \<open>The retry queue name pattern\<close>

text \<open>
  \<open>RETRY_QUEUE_REGEX\<close> is \<^verbatim>\<open>^(?P<type>.+)_(?P<timestamp>\d+)_#(?P<attempt>\d+)$\<close>, applied
  with \<open>match\<close>. The attempt group is followed by the end of the string (\<open>$\<close> also
  matches just before one final newline) and preceded by \<open>#\<close>, so it is the longest run
  of digits at the end; the timestamp group is preceded by \<open>_\<close>, so it is the longest run
  of digits before \<open>_#\<close>; the type group is what is left before that \<open>_\<close>, at least one
  character and none of them a newline. The matcher reads the name from its end.
\<close>

record retry_groups =
  type_group :: string
  timestamp_group :: string
  attempt_group :: string

definition newline :: char where
  "newline = CHR 0x0A"

definition strip_final_newline :: "string \<Rightarrow> string \<times> string" where
  \<comment> \<open>the reversed name without the final newline that \<open>$\<close> tolerates, and that newline\<close>
  "strip_final_newline r =
     (case r of [] \<Rightarrow> ([], []) | c # r' \<Rightarrow> if c = newline then (r', [c]) else (r, []))"

definition RETRY_QUEUE_REGEX_match :: "string \<Rightarrow> retry_groups option" where
  "RETRY_QUEUE_REGEX_match name =
     (let r0 = fst (strip_final_newline (rev name));
          a = takeWhile is_digit r0;
          r1 = dropWhile is_digit r0
      in if a = [] then None
         else case r1 of
           h # u # r2 \<Rightarrow>
             if h = CHR ''#'' \<and> u = CHR ''_'' then
               (let t = takeWhile is_digit r2;
                    r3 = dropWhile is_digit r2
                in if t = [] then None
                   else case r3 of
                     u' # r4 \<Rightarrow>
                       if u' = CHR ''_'' \<and> r4 \<noteq> [] \<and> newline \<notin> set r4
                       then Some \<lparr>type_group = rev r4, timestamp_group = rev t,
                                  attempt_group = rev a\<rparr>
                       else None
                   | [] \<Rightarrow> None)
             else None
         | _ \<Rightarrow> None)"

definition re_sub_attempt :: "string \<Rightarrow> string \<Rightarrow> string" where
  \<comment> \<open>\<^verbatim>\<open>re.sub("_#\d+$", repl, name)\<close>: the one match, if any, ends the name\<close>
  "re_sub_attempt repl name =
     (let (r0, nl) = strip_final_newline (rev name);
          a = takeWhile is_digit r0;
          r1 = dropWhile is_digit r0
      in if a = [] then name
         else case r1 of
           h # u # r2 \<Rightarrow>
             if h = CHR ''#'' \<and> u = CHR ''_'' then rev r2 @ repl @ nl else name
         | _ \<Rightarrow> name)"

definition spec_retry_name :: "string \<Rightarrow> bool" where
  \<comment> \<open>the pattern of the specification, \<^verbatim>\<open>^retr_(\d+)_#(\d+)$\<close>: the same pattern with the
     type group fixed to \<open>retr\<close>\<close>
  "spec_retry_name name =
     (case RETRY_QUEUE_REGEX_match name of None \<Rightarrow> False | Some g \<Rightarrow> type_group g = ''retr'')"

section \<open>Options, environment and state\<close>

text \<open>
  The option bag, each entry optional; the getters apply the defaults of the source
  (\<open>self.options.get(name, default)\<close>). An endpoint that is missing or empty is \<open>None\<close>.
  \<open>upload_splay\<close>, the bound of the random delay, is a natural number; it is read by the
  pacing only.
\<close>

record endpoint =
  url :: string
  auth_token :: string

record options =
  endpoint :: "endpoint option"
  batch_size :: "int option"
  upload_splay :: "nat option"
  max_retry :: "int option"
  retry_queue_limit :: "int option"
  fail_ttl :: "int option"

definition get_batch_size :: "options \<Rightarrow> int" where
  "get_batch_size c = (case batch_size c of None \<Rightarrow> 100 | Some n \<Rightarrow> n)"

definition get_max_retry :: "options \<Rightarrow> int" where
  "get_max_retry c = (case max_retry c of None \<Rightarrow> 10 | Some n \<Rightarrow> n)"

definition get_retry_queue_limit :: "options \<Rightarrow> int" where
  "get_retry_queue_limit c = (case retry_queue_limit c of None \<Rightarrow> 10 | Some n \<Rightarrow> n)"

definition get_fail_ttl :: "options \<Rightarrow> int" where
  "get_fail_ttl c = (case fail_ttl c of None \<Rightarrow> 604800 | Some n \<Rightarrow> n)"

text \<open>
  The outside world: what \<open>requests.post\<close> does with the i-th request of a run (it answers
  with a status code, or raises), and what the clock shows at its i-th reading. A
  response carries the text that \<open>raise_for_status\<close> puts into its \<open>HTTPError\<close>.
\<close>

record request =
  req_url :: string
  req_authorization :: string
  req_content_type :: string
  req_data :: string

datatype response = Response int string | Raised string

record env =
  net :: "nat \<Rightarrow> request \<Rightarrow> response"
  clock :: "nat \<Rightarrow> datetime"

text \<open>
  What \<open>_upload\<close> returns: \<open>Uploaded\<close> is the pair \<open>(True, None)\<close>, \<open>Unable msg\<close> the pair
  \<open>(False, msg)\<close>.
\<close>

datatype upload_ret = Uploaded | Unable string

text \<open>
  The state: the store, the requests sent so far, each with the entries it carries, the
  calls of \<open>_upload\<close> so far (entries, splay factor, outcome), and the number of clock
  readings.
\<close>

record world =
  db :: redis
  posts :: "(entry list \<times> request) list"
  calls :: "(entry list \<times> int \<times> (error + upload_ret)) list"
  ticks :: nat

definition utcnow :: "env \<Rightarrow> world \<Rightarrow> datetime \<times> world" where
  "utcnow e w = (clock e (ticks w), w\<lparr>ticks := Suc (ticks w)\<rparr>)"

section \<open>The cache\<close>

definition enqueue :: "entry \<Rightarrow> world \<Rightarrow> world" where
  \<comment> \<open>the argument is the serialised record, \<open>json.dumps(data, separators=(",", ":"))\<close>\<close>
  "enqueue data w = w\<lparr>db := redis_lpush (db w) PENDING_QUEUE [data]\<rparr>"

definition list_queues :: "redis \<Rightarrow> string \<Rightarrow> bool \<Rightarrow> string list" where
  "list_queues st pattern reverse =
     (let res = redis_keys st pattern in if reverse then rev (sort res) else sort res)"

fun join :: "string \<Rightarrow> string list \<Rightarrow> string" where
  "join sep [] = []"
| "join sep [x] = x"
| "join sep (x # y # ys) = x @ sep @ join sep (y # ys)"

definition raise_for_status :: "int \<Rightarrow> bool" where
  \<comment> \<open>\<open>Response.raise_for_status\<close> of the requests library raises for the codes 400 to 599\<close>
  "raise_for_status status = (400 \<le> status \<and> status < 600)"

text \<open>
  \<open>_upload\<close>. The pacing before the request (a random delay and a sleep against the time
  of the last upload) touches nothing but the wall clock and is left out.
\<close>

definition payload :: "entry list \<Rightarrow> string" where
  \<comment> \<open>\<open>"[{:s}]".format(", ".join(entries))\<close>\<close>
  "payload entries = ''['' @ join '', '' entries @ '']''"

definition post_request :: "endpoint \<Rightarrow> entry list \<Rightarrow> request" where
  "post_request ep entries =
     \<lparr>req_url = url ep,
      req_authorization = ''token '' @ auth_token ep,
      req_content_type = ''application/json'',
      req_data = payload entries\<rparr>"

definition upload_request :: "options \<Rightarrow> env \<Rightarrow> entry list \<Rightarrow> world \<Rightarrow> (error + upload_ret) \<times> world" where
  "upload_request c e entries w =
     (case endpoint c of
        None \<Rightarrow> (Inr (Unable ''No cloud endpoint configured''), w)
      | Some ep \<Rightarrow>
          (let req = post_request ep entries;
               w1 = w\<lparr>posts := posts w @ [(entries, req)]\<rparr>
           in case net e (length (posts w)) req of
                Raised ex \<Rightarrow> (Inr (Unable ex), w1)
              | Response status msg \<Rightarrow>
                  if raise_for_status status then (Inl (HTTPError msg), w1)
                  else (Inr Uploaded, w1)))"

definition upload :: "options \<Rightarrow> env \<Rightarrow> entry list \<Rightarrow> int \<Rightarrow> world \<Rightarrow> (error + upload_ret) \<times> world" where
  "upload c e entries splay_factor w =
     (let (r, w1) = upload_request c e entries w
      in (r, w1\<lparr>calls := calls w1 @ [(entries, splay_factor, r)]\<rparr>))"

record batch_ret =
  count :: int
  error :: "string option"

definition upload_batch :: "options \<Rightarrow> env \<Rightarrow> string \<Rightarrow> string \<Rightarrow> world \<Rightarrow> (error + batch_ret) \<times> world" where
  "upload_batch c e source_queue work_queue w =
     (let ret = \<lparr>count = 0, error = None\<rparr>;
          (batch, st) = dequeue_batch source_queue work_queue (get_batch_size c) (db w);
          w1 = w\<lparr>db := st\<rparr>
      in if batch = [] then (Inr ret, w1)
         else case upload c e batch 1 w1 of
                (Inl ex, w2) \<Rightarrow> (Inl ex, w2)
              | (Inr Uploaded, w2) \<Rightarrow>
                  (Inr (ret\<lparr>count := int (length batch)\<rparr>),
                   w2\<lparr>db := redis_delete (db w2) work_queue\<rparr>)
              | (Inr (Unable msg), w2) \<Rightarrow> (Inr (ret\<lparr>error := Some msg\<rparr>), w2))"

definition merge_ret :: "batch_ret \<Rightarrow> batch_ret \<Rightarrow> batch_ret" where
  \<comment> \<open>\<open>ret["count"] += res["count"]\<close>, and the error of \<open>res\<close> if it has one\<close>
  "merge_ret ret res =
     \<lparr>count = count ret + count res,
      error = (case error res of None \<Rightarrow> error ret | Some msg \<Rightarrow> Some msg)\<rparr>"

text \<open>
  The \<open>while\<close> loop of \<open>_upload_batch_continuing\<close>. It need not end (it does not with a
  batch size of 0), so the result is optional: \<open>None\<close> is a loop that runs forever.
\<close>

partial_function (option) continuing_loop ::
  "options \<Rightarrow> env \<Rightarrow> string \<Rightarrow> string \<Rightarrow> batch_ret \<Rightarrow> batch_ret \<Rightarrow> world \<Rightarrow>
     ((error + batch_ret) \<times> world) option" where
  "continuing_loop c e source_queue work_queue ret res w =
     (if error res = None \<and> count res = get_batch_size c then
        (case upload_batch c e source_queue work_queue w of
           (Inl ex, w1) \<Rightarrow> Some (Inl ex, w1)
         | (Inr res1, w1) \<Rightarrow>
             continuing_loop c e source_queue work_queue (merge_ret ret res1) res1 w1)
      else Some (Inr ret, w))"

declare continuing_loop.simps [code]

definition upload_batch_continuing ::
  "options \<Rightarrow> env \<Rightarrow> string \<Rightarrow> string \<Rightarrow> world \<Rightarrow> ((error + batch_ret) \<times> world) option" where
  "upload_batch_continuing c e source_queue work_queue w =
     (case upload_batch c e source_queue work_queue w of
        (Inl ex, w1) \<Rightarrow> Some (Inl ex, w1)
      | (Inr res, w1) \<Rightarrow>
          continuing_loop c e source_queue work_queue
            (merge_ret \<lparr>count = 0, error = None\<rparr> res) res w1)"

record drive_ret =
  total :: int
  errors :: "string list option"
  is_overrun :: "bool option"

definition append_error :: "drive_ret \<Rightarrow> string \<Rightarrow> drive_ret" where
  \<comment> \<open>\<open>ret.setdefault("errors", []).append(msg)\<close>\<close>
  "append_error ret msg =
     ret\<lparr>errors := Some ((case errors ret of None \<Rightarrow> [] | Some es \<Rightarrow> es) @ [msg])\<rparr>"

fun failing_loop ::
  "options \<Rightarrow> env \<Rightarrow> string list \<Rightarrow> drive_ret \<Rightarrow> world \<Rightarrow> ((error + drive_ret) \<times> world) option" where
  "failing_loop c e [] ret w = Some (Inr ret, w)"
| "failing_loop c e (queue # queues) ret w =
     (case upload_batch_continuing c e queue FAIL_WORK_QUEUE w of
        None \<Rightarrow> None
      | Some (Inl (HTTPError rex), w1) \<Rightarrow> Some (Inr (append_error ret rex), w1)
      | Some (Inl ex, w1) \<Rightarrow> Some (Inl ex, w1)
      | Some (Inr res, w1) \<Rightarrow>
          (let ret1 = ret\<lparr>total := total ret + count res\<rparr>
           in case error res of
                Some msg \<Rightarrow> Some (Inr (append_error ret1 msg), w1)
              | None \<Rightarrow> failing_loop c e queues ret1 w1))"

definition upload_failing :: "options \<Rightarrow> env \<Rightarrow> world \<Rightarrow> ((error + drive_ret) \<times> world) option" where
  "upload_failing c e w =
     (let ret = \<lparr>total = 0, errors = None, is_overrun = None\<rparr>;
          queues = list_queues (db w) ''fail_*'' False
      in failing_loop c e queues ret w)"

definition upload_pending :: "options \<Rightarrow> env \<Rightarrow> world \<Rightarrow> ((error + drive_ret) \<times> world) option" where
  "upload_pending c e w =
     (let ret = \<lparr>total = 0, errors = None, is_overrun = None\<rparr>
      in case upload_batch_continuing c e PENDING_QUEUE PENDING_WORK_QUEUE w of
           None \<Rightarrow> None
         | Some (Inr res, w1) \<Rightarrow>
             (let ret1 = ret\<lparr>total := total ret + count res\<rparr>
              in Some (Inr (case error res of None \<Rightarrow> ret1 | Some msg \<Rightarrow> append_error ret1 msg),
                       w1))
         | Some (Inl (HTTPError rex), w1) \<Rightarrow>
             (let ret1 = append_error ret rex;
                  (now, w2) = utcnow e w1;
                  retry_queue = RETRY_QUEUE now 0
              in case redis_renamenx (db w2) PENDING_WORK_QUEUE retry_queue of
                   Inl ex \<Rightarrow> Some (Inl ex, w2)
                 | Inr (renamed, st) \<Rightarrow> Some (Inr ret1, w2\<lparr>db := st\<rparr>))
         | Some (Inl ex, w1) \<Rightarrow> Some (Inl ex, w1))"

definition pipeline_lpush_expire_delete ::
  "redis \<Rightarrow> string \<Rightarrow> entry list \<Rightarrow> int \<Rightarrow> string \<Rightarrow> error + redis" where
  \<comment> \<open>\<open>pipeline().lpush(fail_queue, *entries).expire(fail_queue, ttl).delete(queue).execute()\<close>:
     one transaction; \<open>LPUSH\<close> without a value is refused and nothing is executed\<close>
  "pipeline_lpush_expire_delete st fail_queue entries ttl queue =
     (if entries = [] then Inl (ResponseError ''wrong number of arguments'')
      else Inr (redis_delete (redis_expire (redis_lpush st fail_queue entries) fail_queue ttl) queue))"

text \<open>
  The \<open>except RequestException\<close> clause of \<open>upload_retrying\<close>, after the error is noted
  in \<open>ret\<close>: the queue goes to the fail queue of the day when the attempts are used up, and
  is renamed to carry the new attempt otherwise.
\<close>

definition retry_failed ::
  "options \<Rightarrow> env \<Rightarrow> string \<Rightarrow> int \<Rightarrow> entry list \<Rightarrow> world \<Rightarrow> (error + unit) \<times> world" where
  "retry_failed c e queue attempt entries w =
     (let max_retry = get_max_retry c
      in if attempt \<ge> max_retry then
           (let (now, w1) = utcnow e w;
                fail_queue = FAIL_QUEUE now
            in case pipeline_lpush_expire_delete (db w1) fail_queue entries (get_fail_ttl c) queue of
                 Inl ex \<Rightarrow> (Inl ex, w1)
               | Inr st \<Rightarrow> (Inr (), w1\<lparr>db := st\<rparr>))
         else
           (case redis_renamenx (db w) queue (re_sub_attempt (''_#'' @ str_int attempt) queue) of
              Inl ex \<Rightarrow> (Inl ex, w)
            | Inr (renamed, st) \<Rightarrow> (Inr (), w\<lparr>db := st\<rparr>)))"

text \<open>
  The \<open>for\<close> loop of \<open>upload_retrying\<close>, over the names listed before the loop.
\<close>

fun retrying_loop ::
  "options \<Rightarrow> env \<Rightarrow> string list \<Rightarrow> int \<Rightarrow> drive_ret \<Rightarrow> world \<Rightarrow> (error + drive_ret) \<times> world" where
  "retrying_loop c e [] remaining_count ret w = (Inr ret, w)"
| "retrying_loop c e (queue # queues) remaining_count ret w =
     (case RETRY_QUEUE_REGEX_match queue of
        None \<Rightarrow> retrying_loop c e queues remaining_count ret w
      | Some m \<Rightarrow>
          (let attempt = int (int_of_digits (attempt_group m)) + 1;
               entries = redis_lrange (db w) queue
           in case upload c e entries remaining_count w of
                (Inr Uploaded, w1) \<Rightarrow>
                  retrying_loop c e queues (remaining_count - 1)
                    (ret\<lparr>total := total ret + int (length entries)\<rparr>)
                    (w1\<lparr>db := redis_delete (db w1) queue\<rparr>)
              | (Inr (Unable msg), w1) \<Rightarrow> (Inr (append_error ret msg), w1)
              | (Inl (HTTPError rex), w1) \<Rightarrow>
                  (case retry_failed c e queue attempt entries w1 of
                     (Inl ex, w2) \<Rightarrow> (Inl ex, w2)
                   | (Inr u, w2) \<Rightarrow>
                       retrying_loop c e queues remaining_count (append_error ret rex) w2)
              | (Inl ex, w1) \<Rightarrow> (Inl ex, w1)))"

definition upload_retrying :: "options \<Rightarrow> env \<Rightarrow> world \<Rightarrow> (error + drive_ret) \<times> world" where
  "upload_retrying c e w =
     (let ret = \<lparr>total = 0, errors = None, is_overrun = None\<rparr>;
          queue_limit = get_retry_queue_limit c;
          queues = list_queues (db w) ''retr_*'' False;
          ret1 = ret\<lparr>is_overrun := Some (int (length queues) \<ge> queue_limit)\<rparr>;
          remaining_count = int (length queues)
      in retrying_loop c e queues remaining_count ret1 w)"

section \<open>Histories\<close>

text \<open>
  A history of the cache: records are enqueued and the three drive operations are
  invoked, each against its own state of the network and the clock. \<open>run\<close> gives the
  state after a history, if every operation of it returns.
\<close>

datatype operation =
  Enqueue entry
| Upload_pending env
| Upload_retrying env
| Upload_failing env

fun run :: "options \<Rightarrow> operation list \<Rightarrow> world \<Rightarrow> world option" where
  "run c [] w = Some w"
| "run c (Enqueue data # ops) w = run c ops (enqueue data w)"
| "run c (Upload_pending e # ops) w =
     (case upload_pending c e w of None \<Rightarrow> None | Some (r, w') \<Rightarrow> run c ops w')"
| "run c (Upload_retrying e # ops) w =
     (case upload_retrying c e w of (r, w') \<Rightarrow> run c ops w')"
| "run c (Upload_failing e # ops) w =
     (case upload_failing c e w of None \<Rightarrow> None | Some (r, w') \<Rightarrow> run c ops w')"

section \<open>Properties of runs\<close>

text \<open>What a finished run has sent: the entries carried and the body of each request.\<close>

definition requests_sent :: "('a \<times> world) option \<Rightarrow> (entry list \<times> string) list option" where
  \<comment> \<open>the requests of a finished run: the entries carried and the body, in order\<close>
  "requests_sent r = map_option (\<lambda>(x, w). map (\<lambda>(entries, req). (entries, req_data req)) (posts w)) r"

text \<open>
  Two properties of a sequence of \<open>_upload\<close> calls: every call gets the splay factor
  \<open>remaining\<close>, which goes down by one after each successful upload and only then; and a
  call that returns \<open>(False, msg)\<close> is the last one.
\<close>

fun splay_trace :: "int \<Rightarrow> (entry list \<times> int \<times> (error + upload_ret)) list \<Rightarrow> bool" where
  "splay_trace remaining [] = True"
| "splay_trace remaining ((entries, splay_factor, outcome) # cs) =
     (splay_factor = remaining \<and>
      splay_trace (if outcome = Inr Uploaded then remaining - 1 else remaining) cs)"

fun stops_when_unable :: "(entry list \<times> int \<times> (error + upload_ret)) list \<Rightarrow> bool" where
  "stops_when_unable [] = True"
| "stops_when_unable ((entries, splay_factor, outcome) # cs) =
     ((case outcome of Inr (Unable msg) \<Rightarrow> cs = [] | _ \<Rightarrow> True) \<and> stops_when_unable cs)"

definition splay_factors :: "(entry list \<times> int \<times> (error + upload_ret)) list \<Rightarrow> int list" where
  "splay_factors cs = map (\<lambda>(entries, splay_factor, outcome). splay_factor) cs"

text \<open>The names that \<open>RETRY_QUEUE_REGEX\<close> matches.\<close>

definition matches_retry_pattern :: "string \<Rightarrow> bool" where
  "matches_retry_pattern name = (RETRY_QUEUE_REGEX_match name \<noteq> None)"

text \<open>
  Every queue but \<open>pend\<close> and the fail queues of the days holds at most \<open>batch_size\<close>
  entries, and so does every request sent.
\<close>

definition capped_key :: "string \<Rightarrow> bool" where
  "capped_key k = (k \<noteq> PENDING_QUEUE \<and> \<not> glob_match ''fail_*'' k)"

definition queues_capped :: "options \<Rightarrow> redis \<Rightarrow> bool" where
  "queues_capped c st =
     (\<forall>k. capped_key k \<longrightarrow> length (redis_lrange st k) \<le> nat (get_batch_size c))"

definition posts_capped :: "options \<Rightarrow> world \<Rightarrow> bool" where
  "posts_capped c w = (\<forall>p\<in>set (posts w). int (length (fst p)) \<le> get_batch_size c)"

definition batch_cap :: "options \<Rightarrow> world \<Rightarrow> bool" where
  "batch_cap c w = (queues_capped c (db w) \<and> posts_capped c w)"

text \<open>
  What is left to upload from a source queue through a work queue: the entries of the
  source, and one more while the work queue holds a batch.
\<close>

definition backlog :: "string \<Rightarrow> string \<Rightarrow> world \<Rightarrow> nat" where
  "backlog source work w =
     length (redis_lrange (db w) source) + (if redis_lrange (db w) work = [] then 0 else 1)"

section \<open>Concrete settings\<close>

text \<open>
  An empty store and a fresh state, the default options around a given endpoint, a
  server that gives the same answer to every request, and a clock that advances by one
  microsecond per reading from midnight of 1 January 2024.
\<close>

definition no_queues :: redis where
  "no_queues = \<lparr>keyspace = [], expiry = []\<rparr>"

definition start :: world where
  "start = \<lparr>db = no_queues, posts = [], calls = [], ticks = 0\<rparr>"

definition default_options :: "endpoint option \<Rightarrow> options" where
  "default_options ep =
     \<lparr>endpoint = ep, batch_size = None, upload_splay = None, max_retry = None,
      retry_queue_limit = None, fail_ttl = None\<rparr>"

definition cloud :: endpoint where
  "cloud = \<lparr>url = ''https://cloud.example/upload'', auth_token = ''secret''\<rparr>"

definition always :: "response \<Rightarrow> nat \<Rightarrow> request \<Rightarrow> response" where
  "always r i req = r"

definition midnight :: "nat \<Rightarrow> datetime" where
  "midnight i =
     \<lparr>year = 2024, month = 1, day = 1, hour = 0, minute = 0, second = 0, microsecond = i\<rparr>"

definition answering :: "response \<Rightarrow> env" where
  "answering r = \<lparr>net = always r, clock = midnight\<rparr>"

text \<open>Stores with retry queues, and a history with a batch size of 2.\<close>

definition three_retry_queues :: redis where
  "three_retry_queues =
     \<lparr>keyspace = [(''retr_20240101000000000003_#0'', [''c'']),
                  (''retr_20240101000000000001_#2'', [''a'']),
                  (''retr_20240101000000000002_#0'', [''b1'', ''b2''])],
      expiry = []\<rparr>"

definition two_retry_queues :: redis where
  "two_retry_queues =
     \<lparr>keyspace = [(''retr_20240101000000000001_#0'', [''a'']),
                  (''retr_20240101000000000002_#0'', [''b''])],
      expiry = []\<rparr>"

definition aged_retry_queues :: redis where
  "aged_retry_queues =
     \<lparr>keyspace = [(''retr_20240101000000000000_#9'', [''a1'', ''a2'']),
                  (''retr_20240101000000000005_#3'', [''b''])],
      expiry = []\<rparr>"

definition odd_retry_queues :: redis where
  "odd_retry_queues =
     \<lparr>keyspace = [(''retr_not_a_timestamp'', [''x'']),
                  (''retr_20240101000000000001_#0'', [''a''])],
      expiry = []\<rparr>"

definition stray_retry_queue :: redis where
  "stray_retry_queue = \<lparr>keyspace = [(''retr_x_1_#0'', [''a''])], expiry = []\<rparr>"

definition pairs :: options where
  "pairs = (default_options (Some cloud))\<lparr>batch_size := Some 2\<rparr>"

definition three_then_drive :: "operation list" where
  "three_then_drive =
     [Enqueue ''1'', Enqueue ''2'', Enqueue ''3'', Upload_pending (answering (Response 200 ''OK''))]"

section \<open>Store lemmas\<close>

lemma lrange_delete [simp]:
  "redis_lrange (redis_delete st k) k' = (if k' = k then [] else redis_lrange st k')"
  by (simp add: redis_lrange_def redis_delete_def delete_conv')

lemma lrange_set_list [simp]:
  "redis_lrange (set_list st k xs) k' = (if k' = k then xs else redis_lrange st k')"
  by (simp add: set_list_def redis_lrange_def redis_delete_def delete_conv' update_conv')

lemma lrange_lpush [simp]:
  "redis_lrange (redis_lpush st k vs) k' =
     (if k' = k then rev vs @ redis_lrange st k else redis_lrange st k')"
  by (simp add: redis_lpush_def)

lemma lrange_expire [simp]: "redis_lrange (redis_expire st k t) k' = redis_lrange st k'"
  by (simp add: redis_expire_def redis_lrange_def)

lemma rpoplpush_empty:
  "redis_lrange st src = [] \<Longrightarrow> redis_rpoplpush st src dst = (None, st)"
  by (simp add: redis_rpoplpush_def)

lemma rpoplpush_snoc:
  assumes "redis_lrange st src = xs @ [v]" and "src \<noteq> dst"
  shows "\<exists>st'. redis_rpoplpush st src dst = (Some v, st') \<and>
           redis_lrange st' src = xs \<and>
           redis_lrange st' dst = v # redis_lrange st dst \<and>
           (\<forall>q. q \<noteq> src \<and> q \<noteq> dst \<longrightarrow> redis_lrange st' q = redis_lrange st q)"
  using assms by (cases xs) (simp_all add: redis_rpoplpush_def Let_def)

text \<open>
  The loop of the script moves the last \<open>min n (length source)\<close> entries: they are
  returned tail first and arrive at the destination in their original order.
\<close>

lemma rpoplpush_loop_moves:
  assumes "src \<noteq> dst"
  shows "\<exists>st'. rpoplpush_loop n src dst ret st =
            (ret @ rev (drop (length (redis_lrange st src) - n) (redis_lrange st src)), st') \<and>
           redis_lrange st' src = take (length (redis_lrange st src) - n) (redis_lrange st src) \<and>
           redis_lrange st' dst =
             drop (length (redis_lrange st src) - n) (redis_lrange st src) @ redis_lrange st dst \<and>
           (\<forall>q. q \<noteq> src \<and> q \<noteq> dst \<longrightarrow> redis_lrange st' q = redis_lrange st q)"
proof (induction n arbitrary: ret st)
  case 0
  show ?case by simp
next
  case (Suc n)
  show ?case
  proof (cases "redis_lrange st src" rule: rev_cases)
    case Nil
    then show ?thesis by (simp add: rpoplpush_empty)
  next
    case (snoc xs v)
    from rpoplpush_snoc [OF snoc assms] obtain st1 where
      st1: "redis_rpoplpush st src dst = (Some v, st1)" "redis_lrange st1 src = xs"
        "redis_lrange st1 dst = v # redis_lrange st dst"
        "\<forall>q. q \<noteq> src \<and> q \<noteq> dst \<longrightarrow> redis_lrange st1 q = redis_lrange st q"
      by blast
    from Suc.IH [of "ret @ [v]" st1] obtain st' where
      st': "rpoplpush_loop n src dst (ret @ [v]) st1 =
              (ret @ [v] @ rev (drop (length xs - n) xs), st')"
        "redis_lrange st' src = take (length xs - n) xs"
        "redis_lrange st' dst = drop (length xs - n) xs @ v # redis_lrange st dst"
        "\<forall>q. q \<noteq> src \<and> q \<noteq> dst \<longrightarrow> redis_lrange st' q = redis_lrange st1 q"
      using st1 by auto
    show ?thesis
      using st1 st' snoc by (auto simp: Suc_diff_le)
  qed
qed

lemma dequeue_batch_resume:
  "redis_lrange st destination \<noteq> [] \<Longrightarrow>
   dequeue_batch source destination n st = (redis_lrange st destination, st)"
  by (simp add: dequeue_batch_def DEQUEUE_BATCH_LUA_def redis_exists_def)

lemma dequeue_batch_nothing:
  "redis_lrange st destination = [] \<Longrightarrow> redis_lrange st source = [] \<Longrightarrow>
   dequeue_batch source destination n st = ([], st)"
  by (simp add: dequeue_batch_def DEQUEUE_BATCH_LUA_def redis_exists_def)

lemma dequeue_batch_move:
  assumes "redis_lrange st destination = []" and "redis_lrange st source = xs" and "xs \<noteq> []"
  shows "\<exists>st'. dequeue_batch source destination n st = (rev (drop (length xs - nat n) xs), st') \<and>
           redis_lrange st' source = take (length xs - nat n) xs \<and>
           redis_lrange st' destination = drop (length xs - nat n) xs \<and>
           (\<forall>q. q \<noteq> source \<and> q \<noteq> destination \<longrightarrow> redis_lrange st' q = redis_lrange st q)"
proof -
  from assms have ne: "source \<noteq> destination" by auto
  have "dequeue_batch source destination n st = rpoplpush_loop (nat n) source destination [] st"
    using assms by (simp add: dequeue_batch_def DEQUEUE_BATCH_LUA_def redis_exists_def)
  with rpoplpush_loop_moves [OF ne, of "nat n" "[]" st] assms show ?thesis by auto
qed

text \<open>
  C3. \<open>dequeue_batch source destination n\<close>, on every store: (1) a non-empty destination
  is returned in full and the store (so the source) is unchanged; (2) otherwise, with a
  non-empty source, the last \<open>min n (length source)\<close> entries of the source are moved one
  by one from its tail to the head of the destination, the entries returned are exactly
  the moved ones (tail first), source followed by destination is the old source (nothing
  lost, nothing duplicated) and no other queue changes; (3) otherwise the result is empty
  and the store is unchanged.
\<close>

theorem dequeue_batch_contract:
  assumes "dequeue_batch source destination n st = (ret, st')"
  shows "(redis_lrange st destination \<noteq> [] \<longrightarrow>
            ret = redis_lrange st destination \<and> st' = st) \<and>
         (redis_lrange st destination = [] \<and> redis_lrange st source \<noteq> [] \<longrightarrow>
            (let xs = redis_lrange st source; k = min (nat n) (length xs) in
               length ret = k \<and>
               ret = rev (drop (length xs - k) xs) \<and>
               redis_lrange st' source = take (length xs - k) xs \<and>
               redis_lrange st' destination = rev ret \<and>
               redis_lrange st' source @ redis_lrange st' destination = xs \<and>
               (\<forall>q. q \<noteq> source \<and> q \<noteq> destination \<longrightarrow>
                  redis_lrange st' q = redis_lrange st q))) \<and>
         (redis_lrange st destination = [] \<and> redis_lrange st source = [] \<longrightarrow>
            ret = [] \<and> st' = st)"
proof -
  have c1: "ret = redis_lrange st destination \<and> st' = st"
    if "redis_lrange st destination \<noteq> []"
    using assms dequeue_batch_resume [OF that, of source n] by auto
  have c3: "ret = [] \<and> st' = st"
    if "redis_lrange st destination = [] \<and> redis_lrange st source = []"
    using assms that dequeue_batch_nothing [of st destination source n] by auto
  have c2: "let xs = redis_lrange st source; k = min (nat n) (length xs) in
               length ret = k \<and>
               ret = rev (drop (length xs - k) xs) \<and>
               redis_lrange st' source = take (length xs - k) xs \<and>
               redis_lrange st' destination = rev ret \<and>
               redis_lrange st' source @ redis_lrange st' destination = xs \<and>
               (\<forall>q. q \<noteq> source \<and> q \<noteq> destination \<longrightarrow>
                  redis_lrange st' q = redis_lrange st q)"
    if a: "redis_lrange st destination = [] \<and> redis_lrange st source \<noteq> []"
  proof -
    define xs where "xs = redis_lrange st source"
    have d: "length xs - min (nat n) (length xs) = length xs - nat n" by simp
    from dequeue_batch_move [of st destination source xs n] a assms
    have "ret = rev (drop (length xs - nat n) xs)"
      and "redis_lrange st' source = take (length xs - nat n) xs"
      and "redis_lrange st' destination = drop (length xs - nat n) xs"
      and "\<forall>q. q \<noteq> source \<and> q \<noteq> destination \<longrightarrow> redis_lrange st' q = redis_lrange st q"
      by (auto simp: xs_def)
    then show ?thesis
      unfolding Let_def xs_def [symmetric] d by auto
  qed
  show ?thesis using c1 c2 c3 by blast
qed

text \<open>A run of the script on a three-entry queue, then on the work queue it left, then on nothing.\<close>

theorem dequeue_batch_contract_witness:
  "dequeue_batch ''pend'' ''pend.work'' 2
      \<lparr>keyspace = [(''pend'', [''c'', ''b'', ''a''])], expiry = []\<rparr> =
     ([''a'', ''b''],
      \<lparr>keyspace = [(''pend'', [''c'']), (''pend.work'', [''b'', ''a''])], expiry = []\<rparr>) \<and>
   redis_lrange \<lparr>keyspace = [(''pend'', [''c'']), (''pend.work'', [''b'', ''a''])], expiry = []\<rparr>
      ''pend'' @
   redis_lrange \<lparr>keyspace = [(''pend'', [''c'']), (''pend.work'', [''b'', ''a''])], expiry = []\<rparr>
      ''pend.work'' = [''c'', ''b'', ''a''] \<and>
   fst (dequeue_batch ''pend'' ''pend.work'' 2
      \<lparr>keyspace = [(''pend'', [''c'']), (''pend.work'', [''b'', ''a''])], expiry = []\<rparr>) =
     [''b'', ''a'']"
proof -
  let ?st = "\<lparr>keyspace = [(''pend'', [''c'', ''b'', ''a''])], expiry = []\<rparr>"
  let ?st' = "\<lparr>keyspace = [(''pend'', [''c'']), (''pend.work'', [''b'', ''a''])], expiry = []\<rparr>"
  have run: "dequeue_batch ''pend'' ''pend.work'' 2 ?st = ([''a'', ''b''], ?st')"
    by (simp add: dequeue_batch_def DEQUEUE_BATCH_LUA_def redis_exists_def redis_lrange_def
        redis_rpoplpush_def redis_lpush_def set_list_def redis_delete_def numeral_2_eq_2 Let_def)
  have src: "redis_lrange ?st ''pend'' = [''c'', ''b'', ''a'']"
    and dst: "redis_lrange ?st ''pend.work'' = []"
    by (simp_all add: redis_lrange_def)
  have moved: "redis_lrange ?st' ''pend'' @ redis_lrange ?st' ''pend.work'' = [''c'', ''b'', ''a'']"
    using dequeue_batch_contract [OF run] src dst by (simp add: Let_def)
  obtain r s where again: "dequeue_batch ''pend'' ''pend.work'' 2 ?st' = (r, s)"
    by (cases "dequeue_batch ''pend'' ''pend.work'' 2 ?st'")
  have work: "redis_lrange ?st' ''pend.work'' = [''b'', ''a'']"
    by (simp add: redis_lrange_def)
  have "r = [''b'', ''a'']"
    using dequeue_batch_contract [OF again] work by simp
  with run moved again show ?thesis by simp
qed

section \<open>The uploader\<close>

lemma upload_no_endpoint:
  "endpoint c = None \<Longrightarrow>
   upload c e entries sf w =
     (Inr (Unable ''No cloud endpoint configured''),
      w\<lparr>calls := calls w @ [(entries, sf, Inr (Unable ''No cloud endpoint configured''))]\<rparr>)"
  by (simp add: upload_def upload_request_def)

lemma upload_raised:
  "endpoint c = Some ep \<Longrightarrow> net e (length (posts w)) (post_request ep entries) = Raised ex \<Longrightarrow>
   upload c e entries sf w =
     (Inr (Unable ex),
      w\<lparr>posts := posts w @ [(entries, post_request ep entries)],
        calls := calls w @ [(entries, sf, Inr (Unable ex))]\<rparr>)"
  by (simp add: upload_def upload_request_def Let_def)

lemma upload_response:
  "endpoint c = Some ep \<Longrightarrow>
   net e (length (posts w)) (post_request ep entries) = Response status msg \<Longrightarrow>
   upload c e entries sf w =
     (let r = (if raise_for_status status then Inl (HTTPError msg) else Inr Uploaded)
      in (r, w\<lparr>posts := posts w @ [(entries, post_request ep entries)],
               calls := calls w @ [(entries, sf, r)]\<rparr>))"
  by (simp add: upload_def upload_request_def Let_def)

lemma upload_db [simp]: "db (snd (upload c e entries sf w)) = db w"
  by (simp add: upload_def upload_request_def Let_def split: option.split response.split prod.split)

lemma upload_ticks [simp]: "ticks (snd (upload c e entries sf w)) = ticks w"
  by (simp add: upload_def upload_request_def Let_def split: option.split response.split prod.split)

text \<open>
  C5, as the code has it. Without an endpoint \<open>_upload\<close> returns
  \<open>(False, "No cloud endpoint configured")\<close> and sends nothing. With an endpoint it sends
  exactly one request; a 2xx answer gives \<open>(True, None)\<close>, a 4xx or 5xx answer raises the
  \<open>HTTPError\<close> (nothing is returned), and an exception of the request gives
  \<open>(False, message)\<close> without raising.
\<close>

theorem upload_classification:
  "(endpoint c = None \<longrightarrow>
      fst (upload c e entries sf w) = Inr (Unable ''No cloud endpoint configured'') \<and>
      posts (snd (upload c e entries sf w)) = posts w) \<and>
   (\<forall>ep. endpoint c = Some ep \<longrightarrow>
      posts (snd (upload c e entries sf w)) = posts w @ [(entries, post_request ep entries)] \<and>
      (\<forall>ex. net e (length (posts w)) (post_request ep entries) = Raised ex \<longrightarrow>
         fst (upload c e entries sf w) = Inr (Unable ex)) \<and>
      (\<forall>status msg. net e (length (posts w)) (post_request ep entries) = Response status msg \<longrightarrow>
         (200 \<le> status \<and> status < 300 \<longrightarrow> fst (upload c e entries sf w) = Inr Uploaded) \<and>
         (400 \<le> status \<and> status < 600 \<longrightarrow>
            fst (upload c e entries sf w) = Inl (HTTPError msg))))"
proof -
  have none: "?thesis" if "endpoint c = None"
    using that by (simp add: upload_no_endpoint)
  have some: "?thesis" if ep: "endpoint c = Some ep" for ep
  proof (cases "net e (length (posts w)) (post_request ep entries)")
    case (Raised ex)
    then show ?thesis using ep by (simp add: upload_raised)
  next
    case (Response status msg)
    then show ?thesis using ep by (simp add: upload_response Let_def raise_for_status_def)
  qed
  show ?thesis using none some by (cases "endpoint c") blast+
qed

theorem upload_classification_witness:
  "fst (upload (default_options None) (answering (Response 200 ''OK'')) [''a''] 1 start) =
     Inr (Unable ''No cloud endpoint configured'') \<and>
   posts (snd (upload (default_options None) (answering (Response 200 ''OK'')) [''a''] 1 start)) = [] \<and>
   fst (upload (default_options (Some cloud)) (answering (Response 200 ''OK'')) [''a''] 1 start) =
     Inr Uploaded \<and>
   fst (upload (default_options (Some cloud)) (answering (Response 500 ''Server Error'')) [''a''] 1 start) =
     Inl (HTTPError ''Server Error'') \<and>
   fst (upload (default_options (Some cloud)) (answering (Raised ''unreachable'')) [''a''] 1 start) =
     Inr (Unable ''unreachable'')"
  using upload_classification [of "default_options None" "answering (Response 200 ''OK'')" "[''a'']" 1 start]
    upload_classification [of "default_options (Some cloud)" "answering (Response 200 ''OK'')" "[''a'']" 1 start]
    upload_classification [of "default_options (Some cloud)" "answering (Response 500 ''Server Error'')" "[''a'']" 1 start]
    upload_classification [of "default_options (Some cloud)" "answering (Raised ''unreachable'')" "[''a'']" 1 start]
  by (simp add: default_options_def answering_def always_def start_def)

text \<open>
  The claim's message is not the one of the code.
\<close>

theorem upload_no_endpoint_counterexample:
  "fst (upload (default_options None) (answering (Response 200 ''OK'')) [''a''] 1 start) \<noteq>
     Inr (Unable ''no endpoint configured'')"
  by (simp add: upload_no_endpoint default_options_def)

text \<open>
  A status that is neither 2xx nor an error for \<open>raise_for_status\<close>, such as 304, counts
  as a successful upload.
\<close>

lemma upload_304_accepted:
  "fst (upload (default_options (Some cloud)) (answering (Response 304 ''Not Modified'')) [''a''] 1 start)
     = Inr Uploaded"
  by (simp add: upload_response [of _ cloud] default_options_def answering_def always_def
      raise_for_status_def Let_def)

section \<open>The batch engine\<close>

lemma rpoplpush_loop_drained:
  "redis_lrange st src = [] \<Longrightarrow> rpoplpush_loop n src dst ret st = (ret, st)"
  by (cases n) (simp_all add: rpoplpush_empty)

lemma dequeue_batch_work:
  assumes "dequeue_batch source work n st = (batch, st')" and "batch \<noteq> []"
  shows "redis_lrange st' work = batch \<or> redis_lrange st' work = rev batch"
proof (cases "redis_lrange st work = []")
  case False
  then show ?thesis using dequeue_batch_resume [OF False, of source n] assms by simp
next
  case True
  show ?thesis
  proof (cases "redis_lrange st source = []")
    case True
    with \<open>redis_lrange st work = []\<close> assms show ?thesis
      using dequeue_batch_nothing [of st work source n] by simp
  next
    case False
    with True show ?thesis
      using dequeue_batch_move [of st work source "redis_lrange st source" n] assms by auto
  qed
qed

lemma upload_batch_unable:
  assumes "dequeue_batch source work (get_batch_size c) (db w) = (batch, st)" and "batch \<noteq> []"
    and "upload c e batch 1 (w\<lparr>db := st\<rparr>) = (Inr (Unable msg), w')"
  shows "upload_batch c e source work w = (Inr \<lparr>count = 0, error = Some msg\<rparr>, w')"
    and "db w' = st"
proof -
  show "upload_batch c e source work w = (Inr \<lparr>count = 0, error = Some msg\<rparr>, w')"
    using assms by (simp add: upload_batch_def)
  have "db (snd (upload c e batch 1 (w\<lparr>db := st\<rparr>))) = st" by simp
  with assms(3) show "db w' = st" by simp
qed

lemma enqueue_start: "db (enqueue A start) = \<lparr>keyspace = [(PENDING_QUEUE, [A])], expiry = []\<rparr>"
  by (simp add: enqueue_def start_def no_queues_def redis_lpush_def set_list_def redis_lrange_def)

lemma dequeue_single:
  assumes "0 < n" and "source \<noteq> work"
  shows "dequeue_batch source work n \<lparr>keyspace = [(source, [A])], expiry = []\<rparr> =
           ([A], \<lparr>keyspace = [(work, [A])], expiry = []\<rparr>)"
proof -
  obtain m where m: "nat n = Suc m" using assms(1) by (cases "nat n") auto
  show ?thesis
    using assms(2)
    by (simp add: dequeue_batch_def DEQUEUE_BATCH_LUA_def redis_exists_def m redis_rpoplpush_def
        redis_lpush_def set_list_def redis_delete_def redis_lrange_def rpoplpush_loop_drained Let_def)
qed

lemma upload_batch_single_unable:
  assumes "endpoint c = Some ep" and "0 < get_batch_size c" and "\<forall>i r. net e i r = Raised msg"
  shows "upload_batch c e PENDING_QUEUE PENDING_WORK_QUEUE (enqueue A start) =
      (Inr \<lparr>count = 0, error = Some msg\<rparr>,
       \<lparr>db = \<lparr>keyspace = [(PENDING_WORK_QUEUE, [A])], expiry = []\<rparr>,
        posts = [([A], post_request ep [A])],
        calls = [([A], 1, Inr (Unable msg))], ticks = 0\<rparr>)"
proof -
  have ne: "PENDING_QUEUE \<noteq> PENDING_WORK_QUEUE"
    by (simp add: PENDING_QUEUE_def PENDING_WORK_QUEUE_def)
  have w: "enqueue A start = \<lparr>db = \<lparr>keyspace = [(PENDING_QUEUE, [A])], expiry = []\<rparr>,
      posts = [], calls = [], ticks = 0\<rparr>"
    using enqueue_start [of A] by (simp add: enqueue_def start_def)
  show ?thesis
    using assms
    by (simp add: upload_batch_def w dequeue_single [OF assms(2) ne] upload_raised [of c ep])
qed

lemma upload_pending_transport_failure:
  assumes "endpoint c = Some ep" and "0 < get_batch_size c" and "\<forall>i r. net e i r = Raised msg"
  shows "upload_pending c e (enqueue A start) =
           Some (Inr \<lparr>total = 0, errors = Some [msg], is_overrun = None\<rparr>,
                 \<lparr>db = \<lparr>keyspace = [(PENDING_WORK_QUEUE, [A])], expiry = []\<rparr>,
                  posts = [([A], post_request ep [A])],
                  calls = [([A], 1, Inr (Unable msg))],
                  ticks = 0\<rparr>)"
  by (simp add: upload_pending_def upload_batch_continuing_def
      upload_batch_single_unable [OF assms] merge_ret_def continuing_loop.simps append_error_def)

lemma no_retry_queue_after_failure:
  "list_queues \<lparr>keyspace = [(PENDING_WORK_QUEUE, [A])], expiry = []\<rparr> ''retr_*'' False = []"
  by (simp add: list_queues_def redis_keys_def PENDING_WORK_QUEUE_def)

text \<open>
  C1, as the code has it. When \<open>dequeue_batch\<close> yields a non-empty batch and \<open>_upload\<close>
  returns \<open>(False, msg)\<close>, \<open>_upload_batch\<close> returns \<open>{count: 0, error: msg}\<close> (the count is
  set on success only) and the store is as \<open>dequeue_batch\<close> left it, the batch in the work
  queue. After one entry \<open>A\<close> is enqueued on an empty store and the transport raises,
  \<open>upload_pending\<close> returns \<open>{total: 0, errors: [msg]}\<close>, \<open>pend.work\<close> is \<open>[A]\<close>, \<open>pend\<close> is empty and
  there is no retry queue.
\<close>

theorem upload_batch_transport_failure:
  "(\<forall>batch st msg w'.
      dequeue_batch source work (get_batch_size c) (db w) = (batch, st) \<and> batch \<noteq> [] \<and>
      upload c e batch 1 (w\<lparr>db := st\<rparr>) = (Inr (Unable msg), w') \<longrightarrow>
        upload_batch c e source work w = (Inr \<lparr>count = 0, error = Some msg\<rparr>, w') \<and>
        db w' = st \<and>
        (redis_lrange (db w') work = batch \<or> redis_lrange (db w') work = rev batch)) \<and>
   (\<forall>ep msg A.
      endpoint c = Some ep \<and> 0 < get_batch_size c \<and> (\<forall>i r. net e i r = Raised msg) \<longrightarrow>
        (\<exists>w'. upload_pending c e (enqueue A start) =
                 Some (Inr \<lparr>total = 0, errors = Some [msg], is_overrun = None\<rparr>, w') \<and>
              redis_lrange (db w') PENDING_WORK_QUEUE = [A] \<and>
              redis_lrange (db w') PENDING_QUEUE = [] \<and>
              list_queues (db w') ''retr_*'' False = []))"
proof (intro conjI allI impI)
  fix batch st msg w'
  assume a: "dequeue_batch source work (get_batch_size c) (db w) = (batch, st) \<and> batch \<noteq> [] \<and>
      upload c e batch 1 (w\<lparr>db := st\<rparr>) = (Inr (Unable msg), w')"
  then show "upload_batch c e source work w = (Inr \<lparr>count = 0, error = Some msg\<rparr>, w')"
    using upload_batch_unable(1) by blast
  from a show "db w' = st"
    using upload_batch_unable(2) by blast
  with a show "redis_lrange (db w') work = batch \<or> redis_lrange (db w') work = rev batch"
    using dequeue_batch_work by blast
next
  fix ep msg A
  assume a: "endpoint c = Some ep \<and> 0 < get_batch_size c \<and> (\<forall>i r. net e i r = Raised msg)"
  then have "upload_pending c e (enqueue A start) =
           Some (Inr \<lparr>total = 0, errors = Some [msg], is_overrun = None\<rparr>,
                 \<lparr>db = \<lparr>keyspace = [(PENDING_WORK_QUEUE, [A])], expiry = []\<rparr>,
                  posts = [([A], post_request ep [A])],
                  calls = [([A], 1, Inr (Unable msg))],
                  ticks = 0\<rparr>)"
    using upload_pending_transport_failure by blast
  then show "\<exists>w'. upload_pending c e (enqueue A start) =
                 Some (Inr \<lparr>total = 0, errors = Some [msg], is_overrun = None\<rparr>, w') \<and>
              redis_lrange (db w') PENDING_WORK_QUEUE = [A] \<and>
              redis_lrange (db w') PENDING_QUEUE = [] \<and>
              list_queues (db w') ''retr_*'' False = []"
    by (simp add: no_retry_queue_after_failure)
      (simp add: redis_lrange_def PENDING_WORK_QUEUE_def PENDING_QUEUE_def)
qed

theorem upload_batch_transport_failure_witness:
  "fst (upload_batch (default_options (Some cloud)) (answering (Raised ''unreachable''))
          PENDING_QUEUE PENDING_WORK_QUEUE (enqueue ''a'' start)) =
     Inr \<lparr>count = 0, error = Some ''unreachable''\<rparr> \<and>
   (\<exists>w'. upload_pending (default_options (Some cloud)) (answering (Raised ''unreachable''))
            (enqueue ''a'' start) =
            Some (Inr \<lparr>total = 0, errors = Some [''unreachable''], is_overrun = None\<rparr>, w') \<and>
          redis_lrange (db w') PENDING_WORK_QUEUE = [''a''] \<and>
          redis_lrange (db w') PENDING_QUEUE = [] \<and>
          list_queues (db w') ''retr_*'' False = [])"
proof -
  let ?c = "default_options (Some cloud)"
  let ?e = "answering (Raised ''unreachable'')"
  let ?st = "\<lparr>keyspace = [(PENDING_WORK_QUEUE, [''a''])], expiry = []\<rparr>"
  let ?w = "\<lparr>db = \<lparr>keyspace = [(PENDING_QUEUE, [''a''])], expiry = []\<rparr>,
      posts = [], calls = [], ticks = 0\<rparr>"
  have ne: "PENDING_QUEUE \<noteq> PENDING_WORK_QUEUE"
    by (simp add: PENDING_QUEUE_def PENDING_WORK_QUEUE_def)
  have bs: "0 < get_batch_size ?c"
    by (simp add: get_batch_size_def default_options_def)
  have w: "enqueue ''a'' start = ?w"
    using enqueue_start [of "''a''"] by (simp add: enqueue_def start_def)
  have deq: "dequeue_batch PENDING_QUEUE PENDING_WORK_QUEUE (get_batch_size ?c) (db (enqueue ''a'' start)) =
      ([''a''], ?st)"
    by (simp add: w dequeue_single [OF bs ne])
  have up: "upload ?c ?e [''a''] 1 (enqueue ''a'' start\<lparr>db := ?st\<rparr>) =
      (Inr (Unable ''unreachable''),
       \<lparr>db = ?st, posts = [([''a''], post_request cloud [''a''])],
        calls = [([''a''], 1, Inr (Unable ''unreachable''))], ticks = 0\<rparr>)"
    by (simp add: w upload_raised [of _ cloud] default_options_def answering_def always_def)
  have ep: "endpoint ?c = Some cloud" by (simp add: default_options_def)
  have net: "\<forall>i r. net ?e i r = Raised ''unreachable''"
    by (simp add: answering_def always_def)
  from upload_batch_transport_failure [of PENDING_QUEUE PENDING_WORK_QUEUE ?c "enqueue ''a'' start" ?e]
    deq up ep bs net
  show ?thesis by (metis fst_conv list.distinct(1))
qed

text \<open>
  The count of the claim, the length of the batch, is not what the code returns: with one
  entry in the batch the count is 0 and so is the total.
\<close>

theorem upload_batch_count_counterexample:
  "fst (dequeue_batch PENDING_QUEUE PENDING_WORK_QUEUE
          (get_batch_size (default_options (Some cloud))) (db (enqueue ''a'' start))) = [''a''] \<and>
   fst (upload_batch (default_options (Some cloud)) (answering (Raised ''unreachable''))
          PENDING_QUEUE PENDING_WORK_QUEUE (enqueue ''a'' start)) \<noteq>
     Inr \<lparr>count = int (length [''a'']), error = Some ''unreachable''\<rparr> \<and>
   map_option fst (upload_pending (default_options (Some cloud)) (answering (Raised ''unreachable''))
          (enqueue ''a'' start)) \<noteq>
     Some (Inr \<lparr>total = 1, errors = Some [''unreachable''], is_overrun = None\<rparr>)"
proof -
  let ?c = "default_options (Some cloud)"
  let ?e = "answering (Raised ''unreachable'')"
  have ne: "PENDING_QUEUE \<noteq> PENDING_WORK_QUEUE"
    by (simp add: PENDING_QUEUE_def PENDING_WORK_QUEUE_def)
  have bs: "0 < get_batch_size ?c"
    by (simp add: get_batch_size_def default_options_def)
  have ep: "endpoint ?c = Some cloud" by (simp add: default_options_def)
  have net: "\<forall>i r. net ?e i r = Raised ''unreachable''"
    by (simp add: answering_def always_def)
  show ?thesis
    by (simp add: enqueue_start dequeue_single [OF bs ne]
        upload_batch_single_unable [OF ep bs net] upload_pending_transport_failure [OF ep bs net])
qed

lemma enqueue_three:
  "enqueue C (enqueue B (enqueue A start)) =
     \<lparr>db = \<lparr>keyspace = [(PENDING_QUEUE, [C, B, A])], expiry = []\<rparr>,
      posts = [], calls = [], ticks = 0\<rparr>"
  by (simp add: enqueue_def start_def no_queues_def redis_lpush_def set_list_def redis_lrange_def)

lemma dequeue_three:
  assumes "3 \<le> n" and "source \<noteq> work"
  shows "dequeue_batch source work n \<lparr>keyspace = [(source, [C, B, A])], expiry = []\<rparr> =
           ([A, B, C], \<lparr>keyspace = [(work, [C, B, A])], expiry = []\<rparr>)"
proof -
  define m where "m = nat n - 3"
  have m: "nat n = Suc (Suc (Suc m))"
    using assms(1) unfolding m_def by linarith
  show ?thesis
    using assms(2)
    by (simp add: dequeue_batch_def DEQUEUE_BATCH_LUA_def redis_exists_def m redis_rpoplpush_def
        redis_lpush_def set_list_def redis_delete_def redis_lrange_def rpoplpush_loop_drained Let_def)
qed

lemma upload_batch_three:
  assumes "endpoint c = Some ep" and "3 \<le> get_batch_size c"
    and "\<forall>i r. net e i r = Response 200 body"
  shows "upload_batch c e PENDING_QUEUE PENDING_WORK_QUEUE (enqueue C (enqueue B (enqueue A start))) =
      (Inr \<lparr>count = 3, error = None\<rparr>,
       \<lparr>db = no_queues,
        posts = [([A, B, C], post_request ep [A, B, C])],
        calls = [([A, B, C], 1, Inr Uploaded)], ticks = 0\<rparr>)"
proof -
  have ne: "PENDING_QUEUE \<noteq> PENDING_WORK_QUEUE"
    by (simp add: PENDING_QUEUE_def PENDING_WORK_QUEUE_def)
  show ?thesis
    using assms
    by (simp add: upload_batch_def enqueue_three dequeue_three [OF assms(2) ne]
        upload_response [of c ep] raise_for_status_def Let_def redis_delete_def no_queues_def)
qed

lemma upload_pending_three:
  assumes "endpoint c = Some ep" and "get_batch_size c = 100"
    and "\<forall>i r. net e i r = Response 200 body"
  shows "upload_pending c e (enqueue C (enqueue B (enqueue A start))) =
           Some (Inr \<lparr>total = 3, errors = None, is_overrun = None\<rparr>,
                 \<lparr>db = no_queues,
                  posts = [([A, B, C], post_request ep [A, B, C])],
                  calls = [([A, B, C], 1, Inr Uploaded)],
                  ticks = 0\<rparr>)"
proof -
  have bs: "3 \<le> get_batch_size c" using assms(2) by simp
  show ?thesis
    by (simp add: upload_pending_def upload_batch_continuing_def
        upload_batch_three [OF assms(1) bs assms(3)] merge_ret_def continuing_loop.simps assms(2))
qed

lemma payload_three: "payload [A, B, C] = ''['' @ A @ '', '' @ B @ '', '' @ C @ '']''"
  by (simp add: payload_def)

text \<open>
  C2, as the code has it. After \<open>A\<close>, \<open>B\<close>, \<open>C\<close> are enqueued in that order on an empty
  store, with a batch size of 100 and a server that answers 200, \<open>upload_pending\<close> sends
  exactly one request, whose body is the array \<open>[A, B, C]\<close> (the order of enqueueing: the
  script takes the entries from the tail of \<open>pend\<close>), leaves \<open>pend\<close> and \<open>pend.work\<close> empty
  and returns \<open>{total: 3}\<close>.
\<close>

theorem happy_path:
  assumes "endpoint c = Some ep" and "get_batch_size c = 100"
    and "\<forall>i r. net e i r = Response 200 body"
  shows "\<exists>w' req. upload_pending c e (enqueue C (enqueue B (enqueue A start))) =
                  Some (Inr \<lparr>total = 3, errors = None, is_overrun = None\<rparr>, w') \<and>
           posts w' = [([A, B, C], req)] \<and>
           req_data req = ''['' @ A @ '', '' @ B @ '', '' @ C @ '']'' \<and>
           req_url req = url ep \<and>
           redis_lrange (db w') PENDING_QUEUE = [] \<and>
           redis_lrange (db w') PENDING_WORK_QUEUE = [] \<and>
           redis_keys (db w') ''*'' = []"
  using upload_pending_three [OF assms, of C B A]
  by (simp add: post_request_def payload_three no_queues_def redis_lrange_def redis_keys_def)

theorem happy_path_witness:
  "\<exists>w' req. upload_pending (default_options (Some cloud)) (answering (Response 200 ''OK''))
          (enqueue ''3'' (enqueue ''2'' (enqueue ''1'' start))) =
        Some (Inr \<lparr>total = 3, errors = None, is_overrun = None\<rparr>, w') \<and>
      posts w' = [([''1'', ''2'', ''3''], req)] \<and>
      req_data req = ''[1, 2, 3]'' \<and>
      redis_lrange (db w') PENDING_QUEUE = [] \<and>
      redis_lrange (db w') PENDING_WORK_QUEUE = []"
proof -
  have ep: "endpoint (default_options (Some cloud)) = Some cloud"
    by (simp add: default_options_def)
  have bs: "get_batch_size (default_options (Some cloud)) = 100"
    by (simp add: get_batch_size_def default_options_def)
  have net: "\<forall>i r. net (answering (Response 200 ''OK'')) i r = Response 200 ''OK''"
    by (simp add: answering_def always_def)
  from happy_path [OF ep bs net, of "''3''" "''2''" "''1''"]
  show ?thesis by auto
qed

text \<open>
  The body of the claim, \<open>[C, B, A]\<close>, is not the body the code sends.
\<close>

theorem happy_path_order_counterexample:
  "requests_sent
     (upload_pending (default_options (Some cloud)) (answering (Response 200 ''OK''))
        (enqueue ''3'' (enqueue ''2'' (enqueue ''1'' start)))) =
     Some [([''1'', ''2'', ''3''], ''[1, 2, 3]'')] \<and>
   requests_sent
     (upload_pending (default_options (Some cloud)) (answering (Response 200 ''OK''))
        (enqueue ''3'' (enqueue ''2'' (enqueue ''1'' start)))) \<noteq>
     Some [([''3'', ''2'', ''1''], ''[3, 2, 1]'')]"
proof -
  have ep: "endpoint (default_options (Some cloud)) = Some cloud"
    by (simp add: default_options_def)
  have bs: "get_batch_size (default_options (Some cloud)) = 100"
    by (simp add: get_batch_size_def default_options_def)
  have net: "\<forall>i r. net (answering (Response 200 ''OK'')) i r = Response 200 ''OK''"
    by (simp add: answering_def always_def)
  show ?thesis
    by (simp add: upload_pending_three [OF ep bs net] requests_sent_def post_request_def
        payload_def)
qed

section \<open>Resuming a batch\<close>

lemma upload_posts:
  "endpoint c = Some ep \<Longrightarrow>
   posts (snd (upload c e entries sf w)) = posts w @ [(entries, post_request ep entries)]"
  by (simp add: upload_def upload_request_def Let_def split: response.split)

lemma upload_batch_posts:
  assumes "endpoint c = Some ep"
    and "dequeue_batch source work (get_batch_size c) (db w) = (batch, st)" and "batch \<noteq> []"
  shows "posts (snd (upload_batch c e source work w)) = posts w @ [(batch, post_request ep batch)]"
proof -
  obtain r w2 where up: "upload c e batch 1 (w\<lparr>db := st\<rparr>) = (r, w2)"
    by (cases "upload c e batch 1 (w\<lparr>db := st\<rparr>)")
  have "posts w2 = posts w @ [(batch, post_request ep batch)]"
    using upload_posts [OF assms(1), of e batch 1 "w\<lparr>db := st\<rparr>"] up by simp
  then show ?thesis
    using assms(2,3) up
    by (simp add: upload_batch_def Let_def split: sum.split upload_ret.split)
qed

lemma dequeue_batch_first_move:
  assumes "redis_lrange st work = []"
    and "dequeue_batch source work n st = (batch, st')" and "batch \<noteq> []"
  shows "redis_lrange st' work = rev batch"
proof (cases "redis_lrange st source = []")
  case True
  then show ?thesis
    using assms dequeue_batch_nothing [of st work source n] by simp
next
  case False
  then show ?thesis
    using assms dequeue_batch_move [of st work source "redis_lrange st source" n] by auto
qed

text \<open>
  C10. Let \<open>dequeue_batch\<close> move a non-empty batch into an empty work queue, and let the
  work queue survive the attempt (a crash, or a failed transport). The next call of
  \<open>dequeue_batch\<close>, on any later state \<open>w1\<close> with that store, returns the work queue head
  to tail, which is the first result reversed; so the request of the resumed
  \<open>_upload_batch\<close> lists the entries of the first request in reverse order.
\<close>

theorem resume_reverses_batch:
  assumes "redis_lrange (db w) work = []"
    and "dequeue_batch source work (get_batch_size c) (db w) = (batch, st)" and "batch \<noteq> []"
    and "endpoint c = Some ep"
    and "db w1 = st"
  shows "redis_lrange st work = rev batch \<and>
         dequeue_batch source work (get_batch_size c) (db w1) = (rev batch, db w1) \<and>
         posts (snd (upload_batch c e source work w)) =
           posts w @ [(batch, post_request ep batch)] \<and>
         posts (snd (upload_batch c e' source work w1)) =
           posts w1 @ [(rev batch, post_request ep (rev batch))] \<and>
         req_data (post_request ep batch) = ''['' @ join '', '' batch @ '']'' \<and>
         req_data (post_request ep (rev batch)) = ''['' @ join '', '' (rev batch) @ '']''"
proof -
  have work: "redis_lrange st work = rev batch"
    using dequeue_batch_first_move [OF assms(1,2,3)] .
  then have ne: "redis_lrange (db w1) work \<noteq> []"
    using assms(3,5) by simp
  have again: "dequeue_batch source work (get_batch_size c) (db w1) = (rev batch, db w1)"
    using dequeue_batch_resume [OF ne, of source "get_batch_size c"] work assms(5) by simp
  have first: "posts (snd (upload_batch c e source work w)) =
      posts w @ [(batch, post_request ep batch)]"
    using upload_batch_posts [OF assms(4,2,3)] .
  have second: "posts (snd (upload_batch c e' source work w1)) =
      posts w1 @ [(rev batch, post_request ep (rev batch))]"
    using upload_batch_posts [OF assms(4) again] assms(3) by simp
  show ?thesis
    using work again first second by (simp add: post_request_def payload_def)
qed

theorem resume_reverses_batch_witness:
  "dequeue_batch PENDING_QUEUE PENDING_WORK_QUEUE 100
      \<lparr>keyspace = [(PENDING_QUEUE, [''3'', ''2'', ''1''])], expiry = []\<rparr> =
     ([''1'', ''2'', ''3''], \<lparr>keyspace = [(PENDING_WORK_QUEUE, [''3'', ''2'', ''1''])], expiry = []\<rparr>) \<and>
   fst (dequeue_batch PENDING_QUEUE PENDING_WORK_QUEUE 100
      \<lparr>keyspace = [(PENDING_WORK_QUEUE, [''3'', ''2'', ''1''])], expiry = []\<rparr>) = [''3'', ''2'', ''1''] \<and>
   requests_sent (Some (upload_batch (default_options (Some cloud)) (answering (Raised ''unreachable''))
      PENDING_QUEUE PENDING_WORK_QUEUE (enqueue ''3'' (enqueue ''2'' (enqueue ''1'' start))))) =
     Some [([''1'', ''2'', ''3''], ''[1, 2, 3]'')] \<and>
   requests_sent (Some (upload_batch (default_options (Some cloud)) (answering (Response 200 ''OK''))
      PENDING_QUEUE PENDING_WORK_QUEUE
      \<lparr>db = \<lparr>keyspace = [(PENDING_WORK_QUEUE, [''3'', ''2'', ''1''])], expiry = []\<rparr>,
       posts = [], calls = [], ticks = 0\<rparr>)) =
     Some [([''3'', ''2'', ''1''], ''[3, 2, 1]'')]"
proof -
  let ?c = "default_options (Some cloud)"
  let ?w = "enqueue ''3'' (enqueue ''2'' (enqueue ''1'' start))"
  let ?st = "\<lparr>keyspace = [(PENDING_WORK_QUEUE, [''3'', ''2'', ''1''])], expiry = []\<rparr>"
  let ?w1 = "\<lparr>db = ?st, posts = [], calls = [], ticks = 0\<rparr>"
  have ne: "PENDING_QUEUE \<noteq> PENDING_WORK_QUEUE"
    by (simp add: PENDING_QUEUE_def PENDING_WORK_QUEUE_def)
  have bs: "get_batch_size ?c = 100"
    by (simp add: get_batch_size_def default_options_def)
  have h1: "redis_lrange (db ?w) PENDING_WORK_QUEUE = []"
    using ne by (simp add: enqueue_three redis_lrange_def)
  have h2: "dequeue_batch PENDING_QUEUE PENDING_WORK_QUEUE (get_batch_size ?c) (db ?w) =
      ([''1'', ''2'', ''3''], ?st)"
    by (simp add: bs enqueue_three dequeue_three [OF _ ne])
  have h3: "[''1'', ''2'', ''3''] \<noteq> []" by simp
  have h4: "endpoint ?c = Some cloud" by (simp add: default_options_def)
  have h5: "db ?w1 = ?st" by simp
  obtain r1 u1 where r1: "upload_batch ?c (answering (Raised ''unreachable''))
      PENDING_QUEUE PENDING_WORK_QUEUE ?w = (r1, u1)" by fastforce
  obtain r2 u2 where r2: "upload_batch ?c (answering (Response 200 ''OK''))
      PENDING_QUEUE PENDING_WORK_QUEUE ?w1 = (r2, u2)" by fastforce
  from resume_reverses_batch [OF h1 h2 h3 h4 h5, of "answering (Raised ''unreachable'')"
      "answering (Response 200 ''OK'')"] h2 r1 r2
  show ?thesis
    by (simp add: bs enqueue_three requests_sent_def post_request_def payload_def)
qed

section \<open>The retry pass\<close>

lemma upload_calls:
  "upload c e entries sf w = (r, w1) \<Longrightarrow> calls w1 = calls w @ [(entries, sf, r)]"
  by (auto simp: upload_def upload_request_def Let_def split: option.splits response.splits
      if_splits prod.splits)

lemma upload_not_response_error: "fst (upload c e entries sf w) \<noteq> Inl (ResponseError x)"
  by (simp add: upload_def upload_request_def Let_def split: option.split response.split prod.split)

lemma retry_failed_calls [simp]: "calls (snd (retry_failed c e queue attempt entries w)) = calls w"
  by (simp add: retry_failed_def utcnow_def Let_def split: sum.split prod.split)

lemma retry_failed_posts [simp]: "posts (snd (retry_failed c e queue attempt entries w)) = posts w"
  by (simp add: retry_failed_def utcnow_def Let_def split: sum.split prod.split)

lemma retrying_loop_skip:
  "RETRY_QUEUE_REGEX_match queue = None \<Longrightarrow>
   retrying_loop c e (queue # queues) remaining ret w = retrying_loop c e queues remaining ret w"
  by simp

lemma retrying_loop_uploaded:
  "RETRY_QUEUE_REGEX_match queue = Some m \<Longrightarrow>
   upload c e (redis_lrange (db w) queue) remaining w = (Inr Uploaded, w1) \<Longrightarrow>
   retrying_loop c e (queue # queues) remaining ret w =
     retrying_loop c e queues (remaining - 1)
       (ret\<lparr>total := total ret + int (length (redis_lrange (db w) queue))\<rparr>)
       (w1\<lparr>db := redis_delete (db w1) queue\<rparr>)"
  by (simp add: Let_def)

lemma retrying_loop_unable:
  "RETRY_QUEUE_REGEX_match queue = Some m \<Longrightarrow>
   upload c e (redis_lrange (db w) queue) remaining w = (Inr (Unable msg), w1) \<Longrightarrow>
   retrying_loop c e (queue # queues) remaining ret w = (Inr (append_error ret msg), w1)"
  by (simp add: Let_def)

lemma retrying_loop_server_error:
  "RETRY_QUEUE_REGEX_match queue = Some m \<Longrightarrow>
   upload c e (redis_lrange (db w) queue) remaining w = (Inl (HTTPError rex), w1) \<Longrightarrow>
   retrying_loop c e (queue # queues) remaining ret w =
     (case retry_failed c e queue (int (int_of_digits (attempt_group m)) + 1)
             (redis_lrange (db w) queue) w1 of
        (Inl ex, w2) \<Rightarrow> (Inl ex, w2)
      | (Inr u, w2) \<Rightarrow> retrying_loop c e queues remaining (append_error ret rex) w2)"
  by (simp add: Let_def)

lemma retrying_loop_trace:
  "\<exists>new. calls (snd (retrying_loop c e queues remaining ret w)) = calls w @ new \<and>
         splay_trace remaining new \<and> stops_when_unable new"
proof (induction queues arbitrary: remaining ret w)
  case Nil
  show ?case by simp
next
  case (Cons queue queues)
  show ?case
  proof (cases "RETRY_QUEUE_REGEX_match queue")
    case None
    then show ?thesis using Cons.IH [of remaining ret w] by simp
  next
    case (Some m)
    obtain r w1 where up: "upload c e (redis_lrange (db w) queue) remaining w = (r, w1)"
      by (cases "upload c e (redis_lrange (db w) queue) remaining w")
    note cs = upload_calls [OF up]
    show ?thesis
    proof (cases r)
      case (Inr u)
      show ?thesis
      proof (cases u)
        case Uploaded
        from Cons.IH [of "remaining - 1"
            "ret\<lparr>total := total ret + int (length (redis_lrange (db w) queue))\<rparr>"
            "w1\<lparr>db := redis_delete (db w1) queue\<rparr>"]
        obtain new where new: "calls (snd (retrying_loop c e queues (remaining - 1)
            (ret\<lparr>total := total ret + int (length (redis_lrange (db w) queue))\<rparr>)
            (w1\<lparr>db := redis_delete (db w1) queue\<rparr>))) = calls w1 @ new"
          "splay_trace (remaining - 1) new" "stops_when_unable new"
          by auto
        have "calls (snd (retrying_loop c e (queue # queues) remaining ret w)) =
            calls w @ (redis_lrange (db w) queue, remaining, r) # new"
          using retrying_loop_uploaded [OF Some up [unfolded Inr Uploaded]] Inr Uploaded
            new(1) cs by simp
        moreover have "splay_trace remaining ((redis_lrange (db w) queue, remaining, r) # new)"
          using new(2) Inr Uploaded by simp
        moreover have "stops_when_unable ((redis_lrange (db w) queue, remaining, r) # new)"
          using new(3) Inr Uploaded by simp
        ultimately show ?thesis by blast
      next
        case (Unable msg)
        have "calls (snd (retrying_loop c e (queue # queues) remaining ret w)) =
            calls w @ [(redis_lrange (db w) queue, remaining, r)]"
          using retrying_loop_unable [OF Some up [unfolded Inr Unable]] Inr Unable cs
          by simp
        moreover have "splay_trace remaining [(redis_lrange (db w) queue, remaining, r)]"
          by simp
        moreover have "stops_when_unable [(redis_lrange (db w) queue, remaining, r)]"
          using Inr Unable by simp
        ultimately show ?thesis by blast
      qed
    next
      case (Inl ex)
      show ?thesis
      proof (cases ex)
        case (ResponseError x)
        then show ?thesis
          using upload_not_response_error [of c e "redis_lrange (db w) queue" remaining w x] up Inl
          by simp
      next
        case (HTTPError rex)
        obtain h w2 where rf: "retry_failed c e queue (int (int_of_digits (attempt_group m)) + 1)
            (redis_lrange (db w) queue) w1 = (h, w2)"
          by (cases "retry_failed c e queue (int (int_of_digits (attempt_group m)) + 1)
            (redis_lrange (db w) queue) w1")
        have w2: "calls w2 = calls w1"
          using retry_failed_calls [of c e queue "int (int_of_digits (attempt_group m)) + 1"
              "redis_lrange (db w) queue" w1] rf by simp
        have tr: "splay_trace remaining ((redis_lrange (db w) queue, remaining, r) # new) \<and>
            stops_when_unable ((redis_lrange (db w) queue, remaining, r) # new)"
          if "splay_trace remaining new" "stops_when_unable new" for new
          using that Inl HTTPError by simp
        show ?thesis
        proof (cases h)
          case (Inl ex')
          have "calls (snd (retrying_loop c e (queue # queues) remaining ret w)) =
              calls w @ [(redis_lrange (db w) queue, remaining, r)]"
            using retrying_loop_server_error [OF Some up [unfolded \<open>r = Inl ex\<close> HTTPError]]
              \<open>r = Inl ex\<close> HTTPError rf Inl w2 cs by simp
          with tr [of "[]"] show ?thesis by auto
        next
          case (Inr u)
          from Cons.IH [of remaining "append_error ret rex" w2]
          obtain new where new: "calls (snd (retrying_loop c e queues remaining
              (append_error ret rex) w2)) = calls w2 @ new"
            "splay_trace remaining new" "stops_when_unable new"
            by auto
          have "calls (snd (retrying_loop c e (queue # queues) remaining ret w)) =
              calls w @ (redis_lrange (db w) queue, remaining, r) # new"
            using retrying_loop_server_error [OF Some up [unfolded \<open>r = Inl ex\<close> HTTPError]]
              \<open>r = Inl ex\<close> HTTPError rf Inr w2 cs new(1) by simp
          with tr [OF new(2,3)] show ?thesis by blast
        qed
      qed
    qed
  qed
qed

lemma list_three_retry_queues:
  "list_queues three_retry_queues ''retr_*'' False =
     [''retr_20240101000000000001_#2'', ''retr_20240101000000000002_#0'',
      ''retr_20240101000000000003_#0'']"
  by (simp add: three_retry_queues_def list_queues_def redis_keys_def redis_exists_def
      redis_lrange_def)

lemma match_three_retry_queues:
  "RETRY_QUEUE_REGEX_match ''retr_20240101000000000001_#2'' =
     Some \<lparr>type_group = ''retr'', timestamp_group = ''20240101000000000001'', attempt_group = ''2''\<rparr>"
  "RETRY_QUEUE_REGEX_match ''retr_20240101000000000002_#0'' =
     Some \<lparr>type_group = ''retr'', timestamp_group = ''20240101000000000002'', attempt_group = ''0''\<rparr>"
  "RETRY_QUEUE_REGEX_match ''retr_20240101000000000003_#0'' =
     Some \<lparr>type_group = ''retr'', timestamp_group = ''20240101000000000003'', attempt_group = ''0''\<rparr>"
  by (simp_all add: RETRY_QUEUE_REGEX_match_def strip_final_newline_def is_digit_def newline_def
      Let_def)

lemma upload_retrying_three:
  assumes "list_queues (db w) ''retr_*'' False = [q1, q2, q3]"
    and "RETRY_QUEUE_REGEX_match q1 = Some m1" and "RETRY_QUEUE_REGEX_match q2 = Some m2"
    and "RETRY_QUEUE_REGEX_match q3 = Some m3"
    and "endpoint c = Some ep" and "\<forall>i r. net e i r = Response 200 body"
  shows "splay_factors (drop (length (calls w)) (calls (snd (upload_retrying c e w)))) = [3, 2, 1]"
  using assms
  by (simp add: upload_retrying_def Let_def upload_response [of c ep] raise_for_status_def
      splay_factors_def)

text \<open>
  C7. In \<open>upload_retrying\<close> every call of \<open>_upload\<close> gets as splay factor the counter that
  starts at the number of listed retry queues and goes down by one after each successful
  upload, and only then. With three retry queues listed, their names matching and every
  upload succeeding, the three calls get 3, 2 and 1 in this order.
\<close>

theorem retry_splay_factors:
  "(\<exists>new. calls (snd (upload_retrying c e w)) = calls w @ new \<and>
          splay_trace (int (length (list_queues (db w) ''retr_*'' False))) new) \<and>
   (\<forall>q1 q2 q3 ep body.
      list_queues (db w) ''retr_*'' False = [q1, q2, q3] \<and>
      RETRY_QUEUE_REGEX_match q1 \<noteq> None \<and> RETRY_QUEUE_REGEX_match q2 \<noteq> None \<and>
      RETRY_QUEUE_REGEX_match q3 \<noteq> None \<and>
      endpoint c = Some ep \<and> (\<forall>i r. net e i r = Response 200 body) \<longrightarrow>
        splay_factors (drop (length (calls w)) (calls (snd (upload_retrying c e w)))) = [3, 2, 1])"
proof -
  have "\<exists>new. calls (snd (upload_retrying c e w)) = calls w @ new \<and>
          splay_trace (int (length (list_queues (db w) ''retr_*'' False))) new"
    using retrying_loop_trace
      [of c e "list_queues (db w) ''retr_*'' False"
        "int (length (list_queues (db w) ''retr_*'' False))"
        "\<lparr>total = 0, errors = None,
          is_overrun = Some (get_retry_queue_limit c
                             \<le> int (length (list_queues (db w) ''retr_*'' False)))\<rparr>" w]
    by (auto simp: upload_retrying_def Let_def)
  moreover have "splay_factors (drop (length (calls w)) (calls (snd (upload_retrying c e w)))) =
      [3, 2, 1]"
    if "list_queues (db w) ''retr_*'' False = [q1, q2, q3] \<and>
      RETRY_QUEUE_REGEX_match q1 \<noteq> None \<and> RETRY_QUEUE_REGEX_match q2 \<noteq> None \<and>
      RETRY_QUEUE_REGEX_match q3 \<noteq> None \<and>
      endpoint c = Some ep \<and> (\<forall>i r. net e i r = Response 200 body)" for q1 q2 q3 ep body
    using that upload_retrying_three [of w q1 q2 q3 _ _ _ c ep e body] by auto
  ultimately show ?thesis by blast
qed

theorem retry_splay_factors_witness:
  "list_queues three_retry_queues ''retr_*'' False =
     [''retr_20240101000000000001_#2'', ''retr_20240101000000000002_#0'',
      ''retr_20240101000000000003_#0''] \<and>
   splay_factors (calls (snd (upload_retrying (default_options (Some cloud))
      (answering (Response 200 ''OK'')) (start\<lparr>db := three_retry_queues\<rparr>)))) = [3, 2, 1]"
proof -
  let ?c = "default_options (Some cloud)"
  let ?e = "answering (Response 200 ''OK'')"
  let ?w = "start\<lparr>db := three_retry_queues\<rparr>"
  have ep: "endpoint ?c = Some cloud" by (simp add: default_options_def)
  have net: "\<forall>i r. net ?e i r = Response 200 ''OK''" by (simp add: answering_def always_def)
  have cs: "calls ?w = []" by (simp add: start_def)
  from retry_splay_factors [of ?c ?e ?w] list_three_retry_queues match_three_retry_queues ep net
  have "splay_factors (drop (length (calls ?w)) (calls (snd (upload_retrying ?c ?e ?w)))) = [3, 2, 1]"
    by simp
  with cs list_three_retry_queues show ?thesis by simp
qed

text \<open>
  C6. In a pass of \<open>upload_retrying\<close>, a call of \<open>_upload\<close> that returns \<open>(False, msg)\<close> is
  the last call of the pass. In the loop, at a queue whose name matches: when \<open>_upload\<close>
  returns \<open>(False, msg)\<close> the loop ends there, the message appended to the errors and the
  store untouched, whatever queues remain; when \<open>_upload\<close> raises the server error and the
  \<open>except\<close> clause has moved or renamed the queue, the message is appended and the loop
  goes on with the remaining queues, the counter unchanged.
\<close>

theorem retry_pass_stop_and_continue:
  "(\<exists>new. calls (snd (upload_retrying c e w0)) = calls w0 @ new \<and> stops_when_unable new) \<and>
   (\<forall>m msg w1.
      RETRY_QUEUE_REGEX_match queue = Some m \<and>
      upload c e (redis_lrange (db w) queue) remaining w = (Inr (Unable msg), w1) \<longrightarrow>
        retrying_loop c e (queue # queues) remaining ret w = (Inr (append_error ret msg), w1) \<and>
        db w1 = db w \<and>
        calls w1 = calls w @ [(redis_lrange (db w) queue, remaining, Inr (Unable msg))]) \<and>
   (\<forall>m rex w1 w2.
      RETRY_QUEUE_REGEX_match queue = Some m \<and>
      upload c e (redis_lrange (db w) queue) remaining w = (Inl (HTTPError rex), w1) \<and>
      retry_failed c e queue (int (int_of_digits (attempt_group m)) + 1)
        (redis_lrange (db w) queue) w1 = (Inr (), w2) \<longrightarrow>
        retrying_loop c e (queue # queues) remaining ret w =
          retrying_loop c e queues remaining (append_error ret rex) w2)"
proof -
  have pass: "\<exists>new. calls (snd (upload_retrying c e w0)) = calls w0 @ new \<and> stops_when_unable new"
    using retrying_loop_trace
      [of c e "list_queues (db w0) ''retr_*'' False"
        "int (length (list_queues (db w0) ''retr_*'' False))"
        "\<lparr>total = 0, errors = None,
          is_overrun = Some (get_retry_queue_limit c
                             \<le> int (length (list_queues (db w0) ''retr_*'' False)))\<rparr>" w0]
    by (auto simp: upload_retrying_def Let_def)
  have stop: "retrying_loop c e (queue # queues) remaining ret w = (Inr (append_error ret msg), w1) \<and>
        db w1 = db w \<and>
        calls w1 = calls w @ [(redis_lrange (db w) queue, remaining, Inr (Unable msg))]"
    if "RETRY_QUEUE_REGEX_match queue = Some m \<and>
      upload c e (redis_lrange (db w) queue) remaining w = (Inr (Unable msg), w1)" for m msg w1
  proof -
    from that have m: "RETRY_QUEUE_REGEX_match queue = Some m"
      and up: "upload c e (redis_lrange (db w) queue) remaining w = (Inr (Unable msg), w1)"
      by simp_all
    have "db (snd (upload c e (redis_lrange (db w) queue) remaining w)) = db w" by simp
    with up have "db w1 = db w" by simp
    with retrying_loop_unable [OF m up] upload_calls [OF up] show ?thesis by simp
  qed
  have continue: "retrying_loop c e (queue # queues) remaining ret w =
          retrying_loop c e queues remaining (append_error ret rex) w2"
    if "RETRY_QUEUE_REGEX_match queue = Some m \<and>
      upload c e (redis_lrange (db w) queue) remaining w = (Inl (HTTPError rex), w1) \<and>
      retry_failed c e queue (int (int_of_digits (attempt_group m)) + 1)
        (redis_lrange (db w) queue) w1 = (Inr (), w2)" for m rex w1 w2
  proof -
    from that have m: "RETRY_QUEUE_REGEX_match queue = Some m"
      and up: "upload c e (redis_lrange (db w) queue) remaining w = (Inl (HTTPError rex), w1)"
      and rf: "retry_failed c e queue (int (int_of_digits (attempt_group m)) + 1)
        (redis_lrange (db w) queue) w1 = (Inr (), w2)"
      by simp_all
    show ?thesis using retrying_loop_server_error [OF m up] rf by simp
  qed
  show ?thesis using pass stop continue by blast
qed

theorem retry_pass_stop_and_continue_witness:
  "retrying_loop (default_options (Some cloud)) (answering (Raised ''unreachable''))
      [''retr_20240101000000000001_#0'', ''retr_20240101000000000002_#0''] 2
      \<lparr>total = 0, errors = None, is_overrun = Some False\<rparr> (start\<lparr>db := two_retry_queues\<rparr>) =
     (Inr \<lparr>total = 0, errors = Some [''unreachable''], is_overrun = Some False\<rparr>,
      \<lparr>db = two_retry_queues,
       posts = [([''a''], post_request cloud [''a''])],
       calls = [([''a''], 2, Inr (Unable ''unreachable''))], ticks = 0\<rparr>) \<and>
   retrying_loop (default_options (Some cloud)) (answering (Response 500 ''Server Error''))
      [''retr_20240101000000000001_#0'', ''retr_20240101000000000002_#0''] 2
      \<lparr>total = 0, errors = None, is_overrun = Some False\<rparr> (start\<lparr>db := two_retry_queues\<rparr>) =
     (Inr \<lparr>total = 0, errors = Some [''Server Error'', ''Server Error''], is_overrun = Some False\<rparr>,
      \<lparr>db = \<lparr>keyspace = [(''retr_20240101000000000001_#1'', [''a'']),
                           (''retr_20240101000000000002_#1'', [''b''])], expiry = []\<rparr>,
       posts = [([''a''], post_request cloud [''a'']), ([''b''], post_request cloud [''b''])],
       calls = [([''a''], 2, Inl (HTTPError ''Server Error'')),
                ([''b''], 2, Inl (HTTPError ''Server Error''))], ticks = 0\<rparr>)"
proof -
  let ?c = "default_options (Some cloud)"
  let ?q1 = "''retr_20240101000000000001_#0''"
  let ?q2 = "''retr_20240101000000000002_#0''"
  let ?ret = "\<lparr>total = 0, errors = None, is_overrun = Some False\<rparr>"
  let ?w = "start\<lparr>db := two_retry_queues\<rparr>"
  let ?m = "\<lparr>type_group = ''retr'', timestamp_group = ''20240101000000000001'', attempt_group = ''0''\<rparr>"
  have ep: "endpoint ?c = Some cloud" by (simp add: default_options_def)
  have m: "RETRY_QUEUE_REGEX_match ?q1 = Some ?m"
    by (simp add: RETRY_QUEUE_REGEX_match_def strip_final_newline_def is_digit_def newline_def Let_def)
  have m2: "RETRY_QUEUE_REGEX_match ?q2 =
      Some \<lparr>type_group = ''retr'', timestamp_group = ''20240101000000000002'', attempt_group = ''0''\<rparr>"
    by (simp add: RETRY_QUEUE_REGEX_match_def strip_final_newline_def is_digit_def newline_def Let_def)
  have q1: "redis_lrange two_retry_queues ?q1 = [''a'']"
    by (simp add: two_retry_queues_def redis_lrange_def)
  have mr: "get_max_retry ?c = 10" by (simp add: get_max_retry_def default_options_def)
  let ?down = "answering (Raised ''unreachable'')"
  let ?w1 = "\<lparr>db = two_retry_queues, posts = [([''a''], post_request cloud [''a''])],
       calls = [([''a''], 2, Inr (Unable ''unreachable''))], ticks = 0\<rparr>"
  have down: "net ?down i r = Raised ''unreachable''" for i r
    by (simp add: answering_def always_def)
  have up1: "upload ?c ?down (redis_lrange (db ?w) ?q1) 2 ?w = (Inr (Unable ''unreachable''), ?w1)"
    by (simp add: q1 upload_raised [OF ep] down start_def)
  from retry_pass_stop_and_continue [of ?c ?down ?w ?q1 ?w 2 "[?q2]" ?ret] m up1
  have first: "retrying_loop ?c ?down [?q1, ?q2] 2 ?ret ?w =
      (Inr (append_error ?ret ''unreachable''), ?w1)"
    by blast
  let ?err = "answering (Response 500 ''Server Error'')"
  let ?w2 = "\<lparr>db = two_retry_queues, posts = [([''a''], post_request cloud [''a''])],
       calls = [([''a''], 2, Inl (HTTPError ''Server Error''))], ticks = 0\<rparr>"
  let ?w3 = "\<lparr>db = \<lparr>keyspace = [(''retr_20240101000000000002_#0'', [''b'']),
                            (''retr_20240101000000000001_#1'', [''a''])], expiry = []\<rparr>,
       posts = [([''a''], post_request cloud [''a''])],
       calls = [([''a''], 2, Inl (HTTPError ''Server Error''))], ticks = 0\<rparr>"
  have err: "net ?err i r = Response 500 ''Server Error''" for i r
    by (simp add: answering_def always_def)
  have up2: "upload ?c ?err (redis_lrange (db ?w) ?q1) 2 ?w = (Inl (HTTPError ''Server Error''), ?w2)"
    by (simp add: q1 upload_response [OF ep] err start_def raise_for_status_def Let_def)
  have rf: "retry_failed ?c ?err ?q1 (int (int_of_digits (attempt_group ?m)) + 1)
      (redis_lrange (db ?w) ?q1) ?w2 = (Inr (), ?w3)"
    by (simp add: q1 retry_failed_def mr int_of_digits_def
        digit_val_def str_int_def str_nat.simps digit_char_def re_sub_attempt_def
        strip_final_newline_def is_digit_def newline_def Let_def redis_renamenx_def
        redis_exists_def redis_lrange_def two_retry_queues_def redis_ttl_def redis_delete_def
        set_list_def)
  have rest: "retrying_loop ?c ?err [?q2] 2 (append_error ?ret ''Server Error'') ?w3 =
     (Inr \<lparr>total = 0, errors = Some [''Server Error'', ''Server Error''], is_overrun = Some False\<rparr>,
      \<lparr>db = \<lparr>keyspace = [(''retr_20240101000000000001_#1'', [''a'']),
                           (''retr_20240101000000000002_#1'', [''b''])], expiry = []\<rparr>,
       posts = [([''a''], post_request cloud [''a'']), ([''b''], post_request cloud [''b''])],
       calls = [([''a''], 2, Inl (HTTPError ''Server Error'')),
                ([''b''], 2, Inl (HTTPError ''Server Error''))], ticks = 0\<rparr>)"
    by (simp add: m2 upload_response [OF ep] err mr
        raise_for_status_def Let_def append_error_def
        retry_failed_def int_of_digits_def
        digit_val_def str_int_def str_nat.simps digit_char_def re_sub_attempt_def
        strip_final_newline_def is_digit_def newline_def redis_renamenx_def
        redis_exists_def redis_lrange_def redis_ttl_def redis_delete_def set_list_def)
  from retry_pass_stop_and_continue [of ?c ?err ?w ?q1 ?w 2 "[?q2]" ?ret] m up2 rf
  have "retrying_loop ?c ?err [?q1, ?q2] 2 ?ret ?w =
      retrying_loop ?c ?err [?q2] 2 (append_error ?ret ''Server Error'') ?w3"
    by blast
  with rest first show ?thesis by (simp add: append_error_def)
qed

section \<open>Numerals and names\<close>

lemma digit_char_cases:
  assumes "d < 10"
  shows "d = 0 \<or> d = 1 \<or> d = 2 \<or> d = 3 \<or> d = 4 \<or> d = 5 \<or> d = 6 \<or> d = 7 \<or> d = 8 \<or> d = (9::nat)"
  using assms by arith

lemma digit_char_digit: "d < 10 \<Longrightarrow> is_digit (digit_char d)"
  using digit_char_cases [of d] by (auto simp: is_digit_def digit_char_def)

lemma digit_val_char: "d < 10 \<Longrightarrow> digit_val (digit_char d) = d"
  using digit_char_cases [of d] by (auto simp: digit_val_def digit_char_def)

lemma str_nat_not_empty: "str_nat n \<noteq> []"
  by (subst str_nat.simps) simp

lemma str_nat_digits: "c \<in> set (str_nat n) \<Longrightarrow> is_digit c"
proof (induction n arbitrary: c rule: str_nat.induct)
  case (1 n)
  show ?case
  proof (cases "n < 10")
    case True
    with "1.prems" show ?thesis
      by (subst (asm) str_nat.simps) (simp add: digit_char_digit)
  next
    case False
    with "1.prems" "1.IH" show ?thesis
      by (subst (asm) str_nat.simps) (auto simp: digit_char_digit)
  qed
qed

lemma int_of_digits_snoc: "int_of_digits (s @ [c]) = 10 * int_of_digits s + digit_val c"
  by (simp add: int_of_digits_def)

lemma int_of_digits_str_nat: "int_of_digits (str_nat n) = n"
proof (induction n rule: str_nat.induct)
  case (1 n)
  show ?case
  proof (cases "n < 10")
    case True
    then show ?thesis
      by (subst str_nat.simps) (simp add: int_of_digits_def digit_val_char)
  next
    case False
    with "1.IH" show ?thesis
      by (subst str_nat.simps) (simp add: int_of_digits_snoc digit_val_char)
  qed
qed

lemma newline_not_digit: "\<not> is_digit newline"
  by (simp add: is_digit_def newline_def)

lemma hash_not_digit: "\<not> is_digit CHR ''#''" and underscore_not_digit: "\<not> is_digit CHR ''_''"
  by (simp_all add: is_digit_def)

lemma strip_final_newline_split:
  "strip_final_newline r = (r0, nl) \<Longrightarrow> r = nl @ r0 \<and> (nl = [] \<or> nl = [newline])"
  by (auto simp: strip_final_newline_def split: list.splits if_splits)

lemma RETRY_QUEUE_REGEX_sound:
  assumes "RETRY_QUEUE_REGEX_match name = Some m"
  shows "\<exists>nl. (nl = [] \<or> nl = [newline]) \<and>
           name = type_group m @ ''_'' @ timestamp_group m @ ''_#'' @ attempt_group m @ nl \<and>
           re_sub_attempt repl name = type_group m @ ''_'' @ timestamp_group m @ repl @ nl"
    and "type_group m \<noteq> []" and "newline \<notin> set (type_group m)"
    and "timestamp_group m \<noteq> []" and "\<forall>c\<in>set (timestamp_group m). is_digit c"
    and "attempt_group m \<noteq> []" and "\<forall>c\<in>set (attempt_group m). is_digit c"
proof -
  obtain r0 nl where sp: "strip_final_newline (rev name) = (r0, nl)"
    by (cases "strip_final_newline (rev name)")
  note eq = strip_final_newline_split [OF sp]
  define a where "a = takeWhile is_digit r0"
  define r1 where "r1 = dropWhile is_digit r0"
  have r0: "r0 = a @ r1" by (simp add: a_def r1_def)
  from assms sp have a: "a \<noteq> []"
    by (auto simp: RETRY_QUEUE_REGEX_match_def Let_def a_def split: if_splits)
  from assms sp a obtain r2 where r1: "r1 = CHR ''#'' # CHR ''_'' # r2"
    by (auto simp: RETRY_QUEUE_REGEX_match_def Let_def a_def r1_def split: if_splits list.splits)
  define t where "t = takeWhile is_digit r2"
  define r3 where "r3 = dropWhile is_digit r2"
  have r2: "r2 = t @ r3" by (simp add: t_def r3_def)
  from assms sp a r1 have t: "t \<noteq> []"
    by (auto simp: RETRY_QUEUE_REGEX_match_def Let_def a_def r1_def t_def
        split: if_splits list.splits)
  from assms sp a r1 t obtain r4 where r3: "r3 = CHR ''_'' # r4"
    and r4: "r4 \<noteq> []" "newline \<notin> set r4"
    and m: "m = \<lparr>type_group = rev r4, timestamp_group = rev t, attempt_group = rev a\<rparr>"
    by (auto simp: RETRY_QUEUE_REGEX_match_def Let_def a_def r1_def t_def r3_def
        split: if_splits list.splits)
  have "rev name = nl @ a @ CHR ''#'' # CHR ''_'' # t @ CHR ''_'' # r4"
    using eq r0 r1 r2 r3 by simp
  then have "rev (rev name) = rev (nl @ a @ CHR ''#'' # CHR ''_'' # t @ CHR ''_'' # r4)"
    by simp
  then have name: "name = rev r4 @ ''_'' @ rev t @ ''_#'' @ rev a @ rev nl"
    by simp
  have nl: "rev nl = nl" using eq by auto
  have sub: "re_sub_attempt repl name = rev r4 @ ''_'' @ rev t @ repl @ nl"
    using sp a r1 r2 r3
    by (simp add: re_sub_attempt_def Let_def a_def [symmetric] r1_def [symmetric])
  show "\<exists>nl. (nl = [] \<or> nl = [newline]) \<and>
           name = type_group m @ ''_'' @ timestamp_group m @ ''_#'' @ attempt_group m @ nl \<and>
           re_sub_attempt repl name = type_group m @ ''_'' @ timestamp_group m @ repl @ nl"
    using eq name nl sub m by auto
  show "type_group m \<noteq> []" "newline \<notin> set (type_group m)"
    and "timestamp_group m \<noteq> []" and "attempt_group m \<noteq> []"
    using m r4 t a by simp_all
  show "\<forall>c\<in>set (timestamp_group m). is_digit c"
    using m by (auto simp: t_def dest: set_takeWhileD)
  show "\<forall>c\<in>set (attempt_group m). is_digit c"
    using m by (auto simp: a_def dest: set_takeWhileD)
qed

lemma takeWhile_run:
  "\<forall>x\<in>set xs. P x \<Longrightarrow> \<not> P y \<Longrightarrow> takeWhile P (xs @ y # ys) = xs"
  by (induction xs) auto

lemma dropWhile_run:
  "\<forall>x\<in>set xs. P x \<Longrightarrow> \<not> P y \<Longrightarrow> dropWhile P (xs @ y # ys) = y # ys"
  by (induction xs) auto

lemma RETRY_QUEUE_REGEX_complete:
  assumes "t \<noteq> []" and "newline \<notin> set t"
    and "ts \<noteq> []" and "\<forall>c\<in>set ts. is_digit c"
    and "a \<noteq> []" and "\<forall>c\<in>set a. is_digit c"
    and "nl = [] \<or> nl = [newline]"
  shows "RETRY_QUEUE_REGEX_match (t @ ''_'' @ ts @ ''_#'' @ a @ nl) =
           Some \<lparr>type_group = t, timestamp_group = ts, attempt_group = a\<rparr>"
proof -
  let ?r0 = "rev a @ CHR ''#'' # CHR ''_'' # rev ts @ CHR ''_'' # rev t"
  have rev: "rev (t @ ''_'' @ ts @ ''_#'' @ a @ nl) = rev nl @ ?r0" by simp
  have "rev a \<noteq> []" using assms(5) by simp
  then obtain d ds where ra: "rev a = d # ds" by (cases "rev a") auto
  then have "is_digit d" using assms(6) by (metis list.set_intros(1) set_rev)
  then have d: "d \<noteq> newline" using newline_not_digit by auto
  have sp: "fst (strip_final_newline (rev nl @ ?r0)) = ?r0"
    using assms(7) ra d by (auto simp: strip_final_newline_def)
  have da: "\<forall>c\<in>set (rev a). is_digit c" and dt: "\<forall>c\<in>set (rev ts). is_digit c"
    using assms(4,6) by simp_all
  show ?thesis
    unfolding RETRY_QUEUE_REGEX_match_def rev sp Let_def
    using assms(1,2,3,5)
    by (simp add: takeWhile_run [OF da hash_not_digit] dropWhile_run [OF da hash_not_digit]
        takeWhile_run [OF dt underscore_not_digit] dropWhile_run [OF dt underscore_not_digit])
qed

text \<open>
  The matcher against the pattern read as a grammar: a name matches exactly when it is a
  type, \<open>_\<close>, a timestamp, \<open>_#\<close> and an attempt, with at most one newline after it.
\<close>

lemma RETRY_QUEUE_REGEX_match_iff:
  "RETRY_QUEUE_REGEX_match name = Some m \<longleftrightarrow>
     (\<exists>nl. (nl = [] \<or> nl = [newline]) \<and>
        name = type_group m @ ''_'' @ timestamp_group m @ ''_#'' @ attempt_group m @ nl) \<and>
     type_group m \<noteq> [] \<and> newline \<notin> set (type_group m) \<and>
     timestamp_group m \<noteq> [] \<and> (\<forall>c\<in>set (timestamp_group m). is_digit c) \<and>
     attempt_group m \<noteq> [] \<and> (\<forall>c\<in>set (attempt_group m). is_digit c)"
proof
  assume a: "RETRY_QUEUE_REGEX_match name = Some m"
  from RETRY_QUEUE_REGEX_sound(1) [OF a, of "[]"] RETRY_QUEUE_REGEX_sound(2-7) [OF a]
  show "(\<exists>nl. (nl = [] \<or> nl = [newline]) \<and>
        name = type_group m @ ''_'' @ timestamp_group m @ ''_#'' @ attempt_group m @ nl) \<and>
     type_group m \<noteq> [] \<and> newline \<notin> set (type_group m) \<and>
     timestamp_group m \<noteq> [] \<and> (\<forall>c\<in>set (timestamp_group m). is_digit c) \<and>
     attempt_group m \<noteq> [] \<and> (\<forall>c\<in>set (attempt_group m). is_digit c)"
    by blast
next
  assume "(\<exists>nl. (nl = [] \<or> nl = [newline]) \<and>
        name = type_group m @ ''_'' @ timestamp_group m @ ''_#'' @ attempt_group m @ nl) \<and>
     type_group m \<noteq> [] \<and> newline \<notin> set (type_group m) \<and>
     timestamp_group m \<noteq> [] \<and> (\<forall>c\<in>set (timestamp_group m). is_digit c) \<and>
     attempt_group m \<noteq> [] \<and> (\<forall>c\<in>set (attempt_group m). is_digit c)"
  then obtain nl where nl: "nl = [] \<or> nl = [newline]"
    and name: "name = type_group m @ ''_'' @ timestamp_group m @ ''_#'' @ attempt_group m @ nl"
    and g: "type_group m \<noteq> []" "newline \<notin> set (type_group m)"
      "timestamp_group m \<noteq> []" "\<forall>c\<in>set (timestamp_group m). is_digit c"
      "attempt_group m \<noteq> []" "\<forall>c\<in>set (attempt_group m). is_digit c"
    by blast
  from RETRY_QUEUE_REGEX_complete [OF g nl] name
  show "RETRY_QUEUE_REGEX_match name = Some m" by simp
qed

section \<open>More store lemmas\<close>

lemma ttl_delete [simp]:
  "redis_ttl (redis_delete st k) k' = (if k' = k then None else redis_ttl st k')"
  by (simp add: redis_ttl_def redis_delete_def delete_conv')

lemma ttl_set_list [simp]:
  "redis_ttl (set_list st k xs) k' = (if k' = k \<and> xs = [] then None else redis_ttl st k')"
  by (simp add: set_list_def redis_ttl_def redis_delete_def delete_conv')

lemma ttl_lpush [simp]:
  "redis_ttl (redis_lpush st k vs) k' =
     (if k' = k \<and> vs = [] \<and> redis_lrange st k = [] then None else redis_ttl st k')"
  by (simp add: redis_lpush_def)

lemma ttl_expire [simp]:
  "redis_ttl (redis_expire st k t) k' =
     (if k' = k \<and> redis_lrange st k \<noteq> [] then Some t else redis_ttl st k')"
  by (simp add: redis_expire_def redis_ttl_def redis_exists_def update_conv')

lemma renamenx_missing:
  "redis_lrange st src = [] \<Longrightarrow> redis_renamenx st src dst = Inl (ResponseError ''no such key'')"
  by (simp add: redis_renamenx_def redis_exists_def)

lemma renamenx_present:
  "redis_lrange st src \<noteq> [] \<Longrightarrow> redis_lrange st dst \<noteq> [] \<Longrightarrow>
   redis_renamenx st src dst = Inr (False, st)"
  by (simp add: redis_renamenx_def redis_exists_def)

lemma renamenx_moves:
  assumes "redis_lrange st src \<noteq> []" and "redis_lrange st dst = []"
  shows "\<exists>st'. redis_renamenx st src dst = Inr (True, st') \<and>
           redis_lrange st' dst = redis_lrange st src \<and>
           redis_lrange st' src = [] \<and>
           (\<forall>k. k \<noteq> src \<and> k \<noteq> dst \<longrightarrow> redis_lrange st' k = redis_lrange st k)"
proof -
  from assms have "src \<noteq> dst" by auto
  with assms show ?thesis
    by (auto simp: redis_renamenx_def redis_exists_def Let_def split: option.split)
qed

lemma glob_match_literal:
  "glob_match (p # ps) k \<Longrightarrow> p \<noteq> CHR ''*'' \<Longrightarrow> \<exists>r. k = p # r \<and> glob_match ps r"
  by (cases k) auto

lemma upload_world:
  "upload c e entries sf w = (r, w1) \<Longrightarrow> db w1 = db w \<and> ticks w1 = ticks w"
  using upload_db [of c e entries sf w] upload_ticks [of c e entries sf w] by simp

section \<open>Promotion to the fail queue\<close>

lemma str_int_Suc: "str_int (int a + 1) = str_nat (Suc a)"
proof -
  have "nat (int a + 1) = Suc a" by simp
  then show ?thesis by (simp add: str_int_def)
qed

lemma FAIL_QUEUE_not_retry: "glob_match ''retr_*'' queue \<Longrightarrow> FAIL_QUEUE t \<noteq> queue"
  by (auto simp: FAIL_QUEUE_def dest!: glob_match_literal)

lemma retry_failed_promotes:
  assumes "get_max_retry c \<le> attempt" and "entries \<noteq> []"
    and "FAIL_QUEUE (clock e (ticks w)) = fail_queue" and "fail_queue \<noteq> queue"
  shows "retry_failed c e queue attempt entries w =
           (Inr (),
            w\<lparr>ticks := Suc (ticks w),
              db := redis_delete
                      (redis_expire (redis_lpush (db w) fail_queue entries) fail_queue
                         (get_fail_ttl c)) queue\<rparr>)"
  using assms
  by (simp add: retry_failed_def utcnow_def pipeline_lpush_expire_delete_def Let_def)

lemma retry_failed_renames:
  assumes "attempt < get_max_retry c"
    and "redis_renamenx (db w) queue (re_sub_attempt (''_#'' @ str_int attempt) queue) =
           Inr (renamed, st)"
  shows "retry_failed c e queue attempt entries w = (Inr (), w\<lparr>db := st\<rparr>)"
  using assms by (simp add: retry_failed_def Let_def)

text \<open>
  C4. Let a listed retry queue with entries match the pattern with attempt \<open>a\<close>, and let
  its upload raise the server error. The loop then runs the \<open>except\<close> clause with the
  attempt \<open>a + 1\<close>. If \<open>a + 1 \<ge> max_retry\<close>, one store transition pushes the entries one by
  one at the head of the fail queue of the day, sets its time-to-live to \<open>fail_ttl\<close> and
  deletes the retry queue. Otherwise the queue is renamed, if no queue has that name yet,
  to the same name with the attempt \<open>a + 1\<close>, which the pattern reads back as \<open>a + 1\<close>.
  So a queue with attempt \<open>max_retry - 1\<close> is the last one before the fail queue.
\<close>

theorem retry_promotion_rule:
  assumes "RETRY_QUEUE_REGEX_match queue = Some m" and "glob_match ''retr_*'' queue"
    and "redis_lrange (db w) queue = entries" and "entries \<noteq> []"
    and "upload c e entries remaining w = (Inl (HTTPError rex), w1)"
    and "a = int_of_digits (attempt_group m)"
  shows
    "retrying_loop c e (queue # queues) remaining ret w =
       (case retry_failed c e queue (int a + 1) entries w1 of
          (Inl ex, w2) \<Rightarrow> (Inl ex, w2)
        | (Inr u, w2) \<Rightarrow> retrying_loop c e queues remaining (append_error ret rex) w2) \<and>
     (get_max_retry c \<le> int a + 1 \<longrightarrow>
        (\<exists>w2 fail_queue.
           fail_queue = FAIL_QUEUE (clock e (ticks w)) \<and>
           retry_failed c e queue (int a + 1) entries w1 = (Inr (), w2) \<and>
           db w2 = redis_delete
                     (redis_expire (redis_lpush (db w) fail_queue entries) fail_queue
                        (get_fail_ttl c)) queue \<and>
           redis_lrange (db w2) fail_queue = rev entries @ redis_lrange (db w) fail_queue \<and>
           redis_ttl (db w2) fail_queue = Some (get_fail_ttl c) \<and>
           redis_lrange (db w2) queue = [])) \<and>
     (int a + 1 < get_max_retry c \<longrightarrow>
        (\<exists>w2 nl new_name renamed.
           (nl = [] \<or> nl = [newline]) \<and>
           queue = type_group m @ ''_'' @ timestamp_group m @ ''_#'' @ attempt_group m @ nl \<and>
           new_name = type_group m @ ''_'' @ timestamp_group m @ ''_#'' @ str_nat (Suc a) @ nl \<and>
           retry_failed c e queue (int a + 1) entries w1 = (Inr (), w2) \<and>
           redis_renamenx (db w) queue new_name = Inr (renamed, db w2) \<and>
           renamed = (redis_lrange (db w) new_name = []) \<and>
           (renamed \<longrightarrow> redis_lrange (db w2) new_name = entries \<and> redis_lrange (db w2) queue = []) \<and>
           (\<not> renamed \<longrightarrow> db w2 = db w) \<and>
           RETRY_QUEUE_REGEX_match new_name = Some (m\<lparr>attempt_group := str_nat (Suc a)\<rparr>) \<and>
           int_of_digits (str_nat (Suc a)) = Suc a))"
proof -
  note w1 = upload_world [OF assms(5)]
  have loop: "retrying_loop c e (queue # queues) remaining ret w =
       (case retry_failed c e queue (int a + 1) entries w1 of
          (Inl ex, w2) \<Rightarrow> (Inl ex, w2)
        | (Inr u, w2) \<Rightarrow> retrying_loop c e queues remaining (append_error ret rex) w2)"
    using retrying_loop_server_error [OF assms(1), of c e w remaining rex w1 queues ret]
      assms(3,5,6) by simp
  have promote: "\<exists>w2 fail_queue.
           fail_queue = FAIL_QUEUE (clock e (ticks w)) \<and>
           retry_failed c e queue (int a + 1) entries w1 = (Inr (), w2) \<and>
           db w2 = redis_delete
                     (redis_expire (redis_lpush (db w) fail_queue entries) fail_queue
                        (get_fail_ttl c)) queue \<and>
           redis_lrange (db w2) fail_queue = rev entries @ redis_lrange (db w) fail_queue \<and>
           redis_ttl (db w2) fail_queue = Some (get_fail_ttl c) \<and>
           redis_lrange (db w2) queue = []"
    if "get_max_retry c \<le> int a + 1"
  proof -
    let ?fq = "FAIL_QUEUE (clock e (ticks w))"
    have ne: "?fq \<noteq> queue" using FAIL_QUEUE_not_retry [OF assms(2)] .
    have fq: "FAIL_QUEUE (clock e (ticks w1)) = ?fq" using w1 by simp
    show ?thesis
      using retry_failed_promotes [OF that assms(4) fq ne] w1 ne assms(4) by simp
  qed
  have rename: "\<exists>w2 nl new_name renamed.
           (nl = [] \<or> nl = [newline]) \<and>
           queue = type_group m @ ''_'' @ timestamp_group m @ ''_#'' @ attempt_group m @ nl \<and>
           new_name = type_group m @ ''_'' @ timestamp_group m @ ''_#'' @ str_nat (Suc a) @ nl \<and>
           retry_failed c e queue (int a + 1) entries w1 = (Inr (), w2) \<and>
           redis_renamenx (db w) queue new_name = Inr (renamed, db w2) \<and>
           renamed = (redis_lrange (db w) new_name = []) \<and>
           (renamed \<longrightarrow> redis_lrange (db w2) new_name = entries \<and> redis_lrange (db w2) queue = []) \<and>
           (\<not> renamed \<longrightarrow> db w2 = db w) \<and>
           RETRY_QUEUE_REGEX_match new_name = Some (m\<lparr>attempt_group := str_nat (Suc a)\<rparr>) \<and>
           int_of_digits (str_nat (Suc a)) = Suc a"
    if lt: "int a + 1 < get_max_retry c"
  proof -
    from RETRY_QUEUE_REGEX_sound(1) [OF assms(1), of "''_#'' @ str_int (int a + 1)"]
    obtain nl where nl: "nl = [] \<or> nl = [newline]"
      and q: "queue = type_group m @ ''_'' @ timestamp_group m @ ''_#'' @ attempt_group m @ nl"
      and sub: "re_sub_attempt (''_#'' @ str_int (int a + 1)) queue =
          type_group m @ ''_'' @ timestamp_group m @ (''_#'' @ str_int (int a + 1)) @ nl"
      by blast
    define new_name where
      "new_name = type_group m @ ''_'' @ timestamp_group m @ ''_#'' @ str_nat (Suc a) @ nl"
    have sub': "re_sub_attempt (''_#'' @ str_int (int a + 1)) queue = new_name"
      using sub by (simp add: new_name_def str_int_Suc)
    have digits: "\<forall>c\<in>set (str_nat (Suc a)). is_digit c"
      using str_nat_digits by blast
    have again: "RETRY_QUEUE_REGEX_match new_name = Some (m\<lparr>attempt_group := str_nat (Suc a)\<rparr>)"
      unfolding new_name_def
      using RETRY_QUEUE_REGEX_complete [OF RETRY_QUEUE_REGEX_sound(2,3,4,5) [OF assms(1)]
          str_nat_not_empty digits nl]
      by simp
    have src: "redis_lrange (db w1) queue \<noteq> []" using w1 assms(3,4) by simp
    show ?thesis
    proof (cases "redis_lrange (db w) new_name = []")
      case True
      with w1 have "redis_lrange (db w1) new_name = []" by simp
      from renamenx_moves [OF src this] obtain st where
        st: "redis_renamenx (db w1) queue new_name = Inr (True, st)"
          "redis_lrange st new_name = redis_lrange (db w1) queue" "redis_lrange st queue = []"
        by blast
      have "redis_renamenx (db w1) queue (re_sub_attempt (''_#'' @ str_int (int a + 1)) queue) =
          Inr (True, st)"
        using st(1) sub' by simp
      from retry_failed_renames [OF lt this]
      have "retry_failed c e queue (int a + 1) entries w1 = (Inr (), w1\<lparr>db := st\<rparr>)" .
      with st True w1 assms(3) nl q again show ?thesis
        by (intro exI [of _ "w1\<lparr>db := st\<rparr>"] exI [of _ nl] exI [of _ new_name] exI [of _ True])
          (simp add: new_name_def int_of_digits_str_nat)
    next
      case False
      with w1 have "redis_lrange (db w1) new_name \<noteq> []" by simp
      from renamenx_present [OF src this]
      have st: "redis_renamenx (db w1) queue new_name = Inr (False, db w1)" .
      have "redis_renamenx (db w1) queue (re_sub_attempt (''_#'' @ str_int (int a + 1)) queue) =
          Inr (False, db w1)"
        using st sub' by simp
      from retry_failed_renames [OF lt this]
      have "retry_failed c e queue (int a + 1) entries w1 = (Inr (), w1\<lparr>db := db w1\<rparr>)" .
      with st False w1 nl q again show ?thesis
        by (intro exI [of _ "w1"] exI [of _ nl] exI [of _ new_name] exI [of _ False])
          (simp add: new_name_def int_of_digits_str_nat)
    qed
  qed
  show ?thesis using loop promote rename by blast
qed

theorem retry_promotion_rule_witness:
  "(\<exists>w2. retry_failed (default_options (Some cloud)) (answering (Response 500 ''Server Error''))
            ''retr_20240101000000000000_#9'' 10 [''a1'', ''a2'']
            (snd (upload (default_options (Some cloud)) (answering (Response 500 ''Server Error''))
                    [''a1'', ''a2''] 2 (start\<lparr>db := aged_retry_queues\<rparr>))) = (Inr (), w2) \<and>
          redis_lrange (db w2) ''fail_20240101'' = [''a2'', ''a1''] \<and>
          redis_ttl (db w2) ''fail_20240101'' = Some 604800 \<and>
          redis_lrange (db w2) ''retr_20240101000000000000_#9'' = []) \<and>
   (\<exists>w2. retry_failed (default_options (Some cloud)) (answering (Response 500 ''Server Error''))
            ''retr_20240101000000000005_#3'' 4 [''b'']
            (snd (upload (default_options (Some cloud)) (answering (Response 500 ''Server Error''))
                    [''b''] 1 (start\<lparr>db := aged_retry_queues\<rparr>))) = (Inr (), w2) \<and>
          redis_lrange (db w2) ''retr_20240101000000000005_#4'' = [''b''] \<and>
          redis_lrange (db w2) ''retr_20240101000000000005_#3'' = [])"
proof -
  let ?c = "default_options (Some cloud)"
  let ?e = "answering (Response 500 ''Server Error'')"
  let ?w = "start\<lparr>db := aged_retry_queues\<rparr>"
  let ?q9 = "''retr_20240101000000000000_#9''"
  let ?q3 = "''retr_20240101000000000005_#3''"
  let ?m9 = "\<lparr>type_group = ''retr'', timestamp_group = ''20240101000000000000'', attempt_group = ''9''\<rparr>"
  let ?m3 = "\<lparr>type_group = ''retr'', timestamp_group = ''20240101000000000005'', attempt_group = ''3''\<rparr>"
  have ep: "endpoint ?c = Some cloud" by (simp add: default_options_def)
  have mr: "get_max_retry ?c = 10" by (simp add: get_max_retry_def default_options_def)
  have ttl: "get_fail_ttl ?c = 604800" by (simp add: get_fail_ttl_def default_options_def)
  have err: "net ?e i r = Response 500 ''Server Error''" for i r
    by (simp add: answering_def always_def)
  have now: "FAIL_QUEUE (clock ?e (ticks ?w)) = ''fail_20240101''"
    by (simp add: FAIL_QUEUE_def strftime_date_def answering_def midnight_def start_def zfill_def
        str_nat.simps digit_char_def)
  have m9: "RETRY_QUEUE_REGEX_match ?q9 = Some ?m9" and m3: "RETRY_QUEUE_REGEX_match ?q3 = Some ?m3"
    by (simp_all add: RETRY_QUEUE_REGEX_match_def strip_final_newline_def is_digit_def newline_def
        Let_def)
  have g9: "glob_match ''retr_*'' ?q9" and g3: "glob_match ''retr_*'' ?q3" by simp_all
  have l9: "redis_lrange (db ?w) ?q9 = [''a1'', ''a2'']" and l3: "redis_lrange (db ?w) ?q3 = [''b'']"
    and lf: "redis_lrange (db ?w) ''fail_20240101'' = []"
    and l4: "redis_lrange (db ?w) ''retr_20240101000000000005_#4'' = []"
    by (simp_all add: aged_retry_queues_def redis_lrange_def)
  have a9: "9 = int_of_digits (attempt_group ?m9)" and a3: "3 = int_of_digits (attempt_group ?m3)"
    by (simp_all add: int_of_digits_def digit_val_def)
  obtain u9 where up9: "upload ?c ?e [''a1'', ''a2''] 2 ?w = (Inl (HTTPError ''Server Error''), u9)"
    by (simp add: upload_response [OF ep] err raise_for_status_def Let_def)
  obtain u3 where up3: "upload ?c ?e [''b''] 1 ?w = (Inl (HTTPError ''Server Error''), u3)"
    by (simp add: upload_response [OF ep] err raise_for_status_def Let_def)
  have s4: "str_nat 4 = ''4''"
    by (simp add: str_nat.simps digit_char_def)
  from retry_promotion_rule [OF m9 g9 l9 _ up9 a9] mr ttl now lf up9
  have first: "\<exists>w2. retry_failed ?c ?e ?q9 10 [''a1'', ''a2''] (snd (upload ?c ?e [''a1'', ''a2''] 2 ?w)) =
            (Inr (), w2) \<and>
          redis_lrange (db w2) ''fail_20240101'' = [''a2'', ''a1''] \<and>
          redis_ttl (db w2) ''fail_20240101'' = Some 604800 \<and>
          redis_lrange (db w2) ?q9 = []"
    by auto
  have ne: "[''b''] \<noteq> []" by simp
  have lt: "int 3 + 1 < get_max_retry ?c" by (simp add: mr)
  from retry_promotion_rule [OF m3 g3 l3 ne up3 a3, THEN conjunct2, THEN conjunct2, rule_format, OF lt]
  obtain w2 nl new_name renamed where r:
    "nl = [] \<or> nl = [newline]"
    "?q3 = type_group ?m3 @ ''_'' @ timestamp_group ?m3 @ ''_#'' @ attempt_group ?m3 @ nl"
    "new_name = type_group ?m3 @ ''_'' @ timestamp_group ?m3 @ ''_#'' @ str_nat (Suc 3) @ nl"
    "retry_failed ?c ?e ?q3 (int 3 + 1) [''b''] u3 = (Inr (), w2)"
    "renamed = (redis_lrange (db ?w) new_name = [])"
    "renamed \<longrightarrow> redis_lrange (db w2) new_name = [''b''] \<and> redis_lrange (db w2) ?q3 = []"
    by blast
  from r(2) have "nl = []" by simp
  with r(3) have nn: "new_name = ''retr_20240101000000000005_#4''" by (simp add: s4)
  with r(5) l4 have renamed by simp
  with r(4,6) nn up3
  have second: "\<exists>w2. retry_failed ?c ?e ?q3 4 [''b''] (snd (upload ?c ?e [''b''] 1 ?w)) = (Inr (), w2) \<and>
          redis_lrange (db w2) ''retr_20240101000000000005_#4'' = [''b''] \<and>
          redis_lrange (db w2) ?q3 = []"
    by auto
  from first second show ?thesis by blast
qed

section \<open>Names that do not match\<close>

lemma lrange_in_keyspace: "redis_lrange st k \<noteq> [] \<Longrightarrow> k \<in> fst ` set (keyspace st)"
  by (auto simp: redis_lrange_def split: option.splits dest: map_of_SomeD intro: rev_image_eqI)

lemma list_queues_member:
  "k \<in> set (list_queues st pattern False) \<longleftrightarrow> redis_lrange st k \<noteq> [] \<and> glob_match pattern k"
  by (auto simp: list_queues_def redis_keys_def redis_exists_def lrange_in_keyspace)

lemma renamenx_keeps:
  assumes "redis_renamenx st src dst = Inr (b, st')" and "redis_lrange st N \<noteq> []" and "N \<noteq> src"
  shows "redis_lrange st' N = redis_lrange st N \<and> redis_ttl st' N = redis_ttl st N"
proof (cases "redis_lrange st dst = []")
  case False
  with assms show ?thesis
    by (auto simp: redis_renamenx_def redis_exists_def split: if_splits)
next
  case True
  with assms(2) have "N \<noteq> dst" by auto
  with assms True show ?thesis
    by (auto simp: redis_renamenx_def redis_exists_def Let_def split: if_splits option.splits)
qed

lemma retry_failed_keeps:
  assumes "redis_lrange (db w) N \<noteq> []" and "N \<noteq> queue" and "glob_match ''retr_*'' N"
  shows "redis_lrange (db (snd (retry_failed c e queue attempt entries w))) N = redis_lrange (db w) N \<and>
         redis_ttl (db (snd (retry_failed c e queue attempt entries w))) N = redis_ttl (db w) N"
proof (cases "get_max_retry c \<le> attempt")
  case True
  have "FAIL_QUEUE (clock e (ticks w)) \<noteq> N" using FAIL_QUEUE_not_retry [OF assms(3)] .
  with True assms(2) show ?thesis
    by (auto simp: retry_failed_def utcnow_def pipeline_lpush_expire_delete_def Let_def)
next
  case False
  show ?thesis
  proof (cases "redis_renamenx (db w) queue (re_sub_attempt (''_#'' @ str_int attempt) queue)")
    case (Inl ex)
    with False show ?thesis by (simp add: retry_failed_def Let_def)
  next
    case (Inr p)
    obtain b st where p: "p = (b, st)" by (cases p)
    from renamenx_keeps [OF Inr [unfolded p] assms(1,2)] False Inr p show ?thesis
      by (simp add: retry_failed_def Let_def)
  qed
qed

lemma retrying_loop_keeps:
  assumes "RETRY_QUEUE_REGEX_match N = None" and "glob_match ''retr_*'' N"
    and "redis_lrange (db w) N \<noteq> []"
  shows "redis_lrange (db (snd (retrying_loop c e queues remaining ret w))) N = redis_lrange (db w) N \<and>
         redis_ttl (db (snd (retrying_loop c e queues remaining ret w))) N = redis_ttl (db w) N"
  using assms(3)
proof (induction queues arbitrary: remaining ret w)
  case Nil
  show ?case by simp
next
  case (Cons queue queues)
  show ?case
  proof (cases "RETRY_QUEUE_REGEX_match queue")
    case None
    then show ?thesis using Cons.IH [OF Cons.prems] by simp
  next
    case (Some m)
    with assms(1) have ne: "N \<noteq> queue" by auto
    obtain r w1 where up: "upload c e (redis_lrange (db w) queue) remaining w = (r, w1)"
      by (cases "upload c e (redis_lrange (db w) queue) remaining w")
    note w1 = upload_world [OF up]
    show ?thesis
    proof (cases r)
      case (Inr u)
      show ?thesis
      proof (cases u)
        case Uploaded
        let ?w = "w1\<lparr>db := redis_delete (db w1) queue\<rparr>"
        have keep: "redis_lrange (db ?w) N = redis_lrange (db w) N"
          "redis_ttl (db ?w) N = redis_ttl (db w) N"
          using w1 ne by simp_all
        with Cons.prems have "redis_lrange (db ?w) N \<noteq> []" by simp
        from Cons.IH [OF this] keep
          retrying_loop_uploaded [OF Some up [unfolded Inr Uploaded]]
        show ?thesis by simp
      next
        case (Unable msg)
        with retrying_loop_unable [OF Some up [unfolded Inr Unable]] w1 show ?thesis by simp
      qed
    next
      case (Inl ex)
      show ?thesis
      proof (cases ex)
        case (ResponseError x)
        then show ?thesis
          using upload_not_response_error [of c e "redis_lrange (db w) queue" remaining w x] up Inl
          by simp
      next
        case (HTTPError rex)
        let ?a = "int (int_of_digits (attempt_group m)) + 1"
        obtain h w2 where rf: "retry_failed c e queue ?a (redis_lrange (db w) queue) w1 = (h, w2)"
          by (cases "retry_failed c e queue ?a (redis_lrange (db w) queue) w1")
        have n1: "redis_lrange (db w1) N \<noteq> []" using w1 Cons.prems by simp
        from retry_failed_keeps [OF n1 ne assms(2), of c e ?a "redis_lrange (db w) queue"] rf w1
        have keep: "redis_lrange (db w2) N = redis_lrange (db w) N"
          "redis_ttl (db w2) N = redis_ttl (db w) N"
          by simp_all
        note step = retrying_loop_server_error [OF Some up [unfolded Inl HTTPError]]
        show ?thesis
        proof (cases h)
          case (Inl ex')
          with step rf keep show ?thesis by simp
        next
          case (Inr u)
          from keep Cons.prems have "redis_lrange (db w2) N \<noteq> []" by simp
          from Cons.IH [OF this] step rf Inr keep show ?thesis by simp
        qed
      qed
    qed
  qed
qed

lemma retrying_loop_filter:
  "retrying_loop c e queues remaining ret w =
     retrying_loop c e (filter (\<lambda>q. RETRY_QUEUE_REGEX_match q \<noteq> None) queues) remaining ret w"
proof (induction queues arbitrary: remaining ret w)
  case Nil
  show ?case by simp
next
  case (Cons queue queues)
  show ?case
  proof (cases "RETRY_QUEUE_REGEX_match queue")
    case None
    then show ?thesis using Cons.IH by simp
  next
    case (Some m)
    then show ?thesis
      using Cons.IH
      by (simp add: Let_def split: prod.split sum.split upload_ret.split error.split)
  qed
qed

text \<open>
  C8, as the code has it. The pattern of the code is \<^verbatim>\<open>^(.+)_(\d+)_#(\d+)$\<close>: the part before
  the timestamp is any non-empty text, not only \<open>retr\<close>. A listed queue whose name does not
  match it is skipped: the loop over the listed names is the loop over those that match,
  so no upload is attempted for the others, and after the pass such a queue is still
  listed, with the same entries and the same time-to-live.
\<close>

theorem unparseable_retry_queue:
  "(\<not> matches_retry_pattern queue \<longrightarrow>
      retrying_loop c e (queue # queues) remaining ret w =
        retrying_loop c e queues remaining ret w) \<and>
   retrying_loop c e queues remaining ret w =
     retrying_loop c e (filter matches_retry_pattern queues) remaining ret w \<and>
   (\<forall>name. name \<in> set (list_queues (db w) ''retr_*'' False) \<and> \<not> matches_retry_pattern name \<longrightarrow>
      redis_lrange (db (snd (upload_retrying c e w))) name = redis_lrange (db w) name \<and>
      redis_ttl (db (snd (upload_retrying c e w))) name = redis_ttl (db w) name \<and>
      name \<in> set (list_queues (db (snd (upload_retrying c e w))) ''retr_*'' False))"
proof -
  have skip: "retrying_loop c e (queue # queues) remaining ret w =
        retrying_loop c e queues remaining ret w" if "\<not> matches_retry_pattern queue"
    using that by (simp add: matches_retry_pattern_def)
  have flt: "retrying_loop c e queues remaining ret w =
     retrying_loop c e (filter matches_retry_pattern queues) remaining ret w"
    using retrying_loop_filter [of c e queues remaining ret w]
    by (simp add: matches_retry_pattern_def [abs_def])
  have keep: "redis_lrange (db (snd (upload_retrying c e w))) name = redis_lrange (db w) name \<and>
      redis_ttl (db (snd (upload_retrying c e w))) name = redis_ttl (db w) name \<and>
      name \<in> set (list_queues (db (snd (upload_retrying c e w))) ''retr_*'' False)"
    if "name \<in> set (list_queues (db w) ''retr_*'' False) \<and> \<not> matches_retry_pattern name" for name
  proof -
    from that have ex: "redis_lrange (db w) name \<noteq> []" and gl: "glob_match ''retr_*'' name"
      and nm: "RETRY_QUEUE_REGEX_match name = None"
      by (simp_all add: list_queues_member matches_retry_pattern_def)
    have "redis_lrange (db (snd (upload_retrying c e w))) name = redis_lrange (db w) name \<and>
      redis_ttl (db (snd (upload_retrying c e w))) name = redis_ttl (db w) name"
      using retrying_loop_keeps [OF nm gl ex] by (simp add: upload_retrying_def Let_def)
    with ex gl show ?thesis by (simp add: list_queues_member)
  qed
  show ?thesis using skip flt keep by blast
qed

lemma upload_retrying_odd:
  "upload_retrying (default_options (Some cloud)) (answering (Response 200 ''OK''))
      (start\<lparr>db := odd_retry_queues\<rparr>) =
     (Inr \<lparr>total = 1, errors = None, is_overrun = Some False\<rparr>,
      \<lparr>db = \<lparr>keyspace = [(''retr_not_a_timestamp'', [''x''])], expiry = []\<rparr>,
       posts = [([''a''], post_request cloud [''a''])],
       calls = [([''a''], 2, Inr Uploaded)], ticks = 0\<rparr>)"
proof -
  let ?c = "default_options (Some cloud)"
  let ?e = "answering (Response 200 ''OK'')"
  have ep: "endpoint ?c = Some cloud" by (simp add: default_options_def)
  have lim: "get_retry_queue_limit ?c = 10"
    by (simp add: get_retry_queue_limit_def default_options_def)
  have ok: "net ?e i r = Response 200 ''OK''" for i r
    by (simp add: answering_def always_def)
  have ls: "list_queues odd_retry_queues ''retr_*'' False =
      [''retr_20240101000000000001_#0'', ''retr_not_a_timestamp'']"
    by (simp add: odd_retry_queues_def list_queues_def redis_keys_def redis_exists_def
        redis_lrange_def)
  have m1: "RETRY_QUEUE_REGEX_match ''retr_20240101000000000001_#0'' =
      Some \<lparr>type_group = ''retr'', timestamp_group = ''20240101000000000001'', attempt_group = ''0''\<rparr>"
    and m2: "RETRY_QUEUE_REGEX_match ''retr_not_a_timestamp'' = None"
    by (simp_all add: RETRY_QUEUE_REGEX_match_def strip_final_newline_def is_digit_def newline_def
        Let_def)
  have l1: "redis_lrange odd_retry_queues ''retr_20240101000000000001_#0'' = [''a'']"
    by (simp add: odd_retry_queues_def redis_lrange_def)
  show ?thesis
    by (simp add: upload_retrying_def Let_def ls lim m1 m2 l1 upload_response [OF ep] ok
        raise_for_status_def start_def)
      (simp add: odd_retry_queues_def redis_delete_def)
qed

theorem unparseable_retry_queue_witness:
  "\<not> matches_retry_pattern ''retr_not_a_timestamp'' \<and>
   ''retr_not_a_timestamp'' \<in> set (list_queues odd_retry_queues ''retr_*'' False) \<and>
   redis_lrange (db (snd (upload_retrying (default_options (Some cloud))
      (answering (Response 200 ''OK'')) (start\<lparr>db := odd_retry_queues\<rparr>))))
      ''retr_not_a_timestamp'' = [''x''] \<and>
   redis_lrange (db (snd (upload_retrying (default_options (Some cloud))
      (answering (Response 200 ''OK'')) (start\<lparr>db := odd_retry_queues\<rparr>))))
      ''retr_20240101000000000001_#0'' = [] \<and>
   requests_sent (Some (upload_retrying (default_options (Some cloud))
      (answering (Response 200 ''OK'')) (start\<lparr>db := odd_retry_queues\<rparr>))) =
     Some [([''a''], ''[a]'')]"
proof -
  let ?c = "default_options (Some cloud)"
  let ?e = "answering (Response 200 ''OK'')"
  let ?w = "start\<lparr>db := odd_retry_queues\<rparr>"
  have nm: "\<not> matches_retry_pattern ''retr_not_a_timestamp''"
    by (simp add: matches_retry_pattern_def RETRY_QUEUE_REGEX_match_def strip_final_newline_def
        is_digit_def newline_def Let_def)
  have ls: "''retr_not_a_timestamp'' \<in> set (list_queues (db ?w) ''retr_*'' False)"
    by (simp add: list_queues_member odd_retry_queues_def redis_lrange_def)
  have x: "redis_lrange (db ?w) ''retr_not_a_timestamp'' = [''x'']"
    by (simp add: odd_retry_queues_def redis_lrange_def)
  from unparseable_retry_queue [of "''retr_not_a_timestamp''" ?c ?e "[]" 0
      "\<lparr>total = 0, errors = None, is_overrun = None\<rparr>" ?w] nm ls x
  have kept: "redis_lrange (db (snd (upload_retrying ?c ?e ?w))) ''retr_not_a_timestamp'' = [''x'']"
    by simp
  have rest: "redis_lrange (db (snd (upload_retrying ?c ?e ?w))) ''retr_20240101000000000001_#0'' = []"
    "requests_sent (Some (upload_retrying ?c ?e ?w)) = Some [([''a''], ''[a]'')]"
    by (simp_all add: upload_retrying_odd redis_lrange_def requests_sent_def post_request_def
        payload_def)
  from nm ls kept rest show ?thesis by simp
qed

text \<open>
  The pattern of the claim, \<^verbatim>\<open>^retr_(\d+)_#(\d+)$\<close>, is not the pattern of the code: the name
  \<open>retr_x_1_#0\<close> does not match the former, is listed, and is uploaded and deleted.
\<close>

theorem retry_pattern_counterexample:
  "\<not> spec_retry_name ''retr_x_1_#0'' \<and>
   list_queues stray_retry_queue ''retr_*'' False = [''retr_x_1_#0''] \<and>
   requests_sent (Some (upload_retrying (default_options (Some cloud))
      (answering (Response 200 ''OK'')) (start\<lparr>db := stray_retry_queue\<rparr>))) =
     Some [([''a''], ''[a]'')] \<and>
   redis_lrange (db (snd (upload_retrying (default_options (Some cloud))
      (answering (Response 200 ''OK'')) (start\<lparr>db := stray_retry_queue\<rparr>)))) ''retr_x_1_#0'' = [] \<and>
   redis_lrange stray_retry_queue ''retr_x_1_#0'' = [''a'']"
proof -
  let ?c = "default_options (Some cloud)"
  let ?e = "answering (Response 200 ''OK'')"
  have ep: "endpoint ?c = Some cloud" by (simp add: default_options_def)
  have lim: "get_retry_queue_limit ?c = 10"
    by (simp add: get_retry_queue_limit_def default_options_def)
  have ok: "net ?e i r = Response 200 ''OK''" for i r
    by (simp add: answering_def always_def)
  have m: "RETRY_QUEUE_REGEX_match ''retr_x_1_#0'' =
      Some \<lparr>type_group = ''retr_x'', timestamp_group = ''1'', attempt_group = ''0''\<rparr>"
    by (simp add: RETRY_QUEUE_REGEX_match_def strip_final_newline_def is_digit_def newline_def
        Let_def)
  have ns: "\<not> spec_retry_name ''retr_x_1_#0''"
    by (simp add: spec_retry_name_def m)
  have ls: "list_queues stray_retry_queue ''retr_*'' False = [''retr_x_1_#0'']"
    by (simp add: stray_retry_queue_def list_queues_def redis_keys_def redis_exists_def
        redis_lrange_def)
  have l: "redis_lrange stray_retry_queue ''retr_x_1_#0'' = [''a'']"
    by (simp add: stray_retry_queue_def redis_lrange_def)
  have run: "upload_retrying ?c ?e (start\<lparr>db := stray_retry_queue\<rparr>) =
     (Inr \<lparr>total = 1, errors = None, is_overrun = Some False\<rparr>,
      \<lparr>db = \<lparr>keyspace = [], expiry = []\<rparr>,
       posts = [([''a''], post_request cloud [''a''])],
       calls = [([''a''], 1, Inr Uploaded)], ticks = 0\<rparr>)"
    by (simp add: upload_retrying_def Let_def ls lim m l upload_response [OF ep] ok
        raise_for_status_def start_def)
      (simp add: stray_retry_queue_def redis_delete_def)
  show ?thesis
    using l
    by (simp add: ns ls run requests_sent_def post_request_def payload_def redis_lrange_def)
qed

section \<open>The batch cap\<close>

lemma glob_match_star: "glob_match ''*'' s"
  by (induction s) auto

lemma glob_match_retr: "glob_match ''retr_*'' k \<longleftrightarrow> take 5 k = ''retr_''"
proof
  assume "glob_match ''retr_*'' k"
  then show "take 5 k = ''retr_''"
    by (auto dest!: glob_match_literal)
next
  assume "take 5 k = ''retr_''"
  then have "k = ''retr_'' @ drop 5 k"
    by (metis append_take_drop_id)
  then obtain r where "k = ''retr_'' @ r" ..
  then show "glob_match ''retr_*'' k" by (simp add: glob_match_star)
qed

lemma glob_match_fail: "glob_match ''fail_*'' k \<longleftrightarrow> take 5 k = ''fail_''"
proof
  assume "glob_match ''fail_*'' k"
  then show "take 5 k = ''fail_''"
    by (auto dest!: glob_match_literal)
next
  assume "take 5 k = ''fail_''"
  then have "k = ''fail_'' @ drop 5 k"
    by (metis append_take_drop_id)
  then obtain r where "k = ''fail_'' @ r" ..
  then show "glob_match ''fail_*'' k" by (simp add: glob_match_star)
qed

lemma capped_work_queues: "capped_key PENDING_WORK_QUEUE" "capped_key FAIL_WORK_QUEUE"
  by (simp_all add: capped_key_def PENDING_WORK_QUEUE_def FAIL_WORK_QUEUE_def PENDING_QUEUE_def)

lemma capped_retry_key: "glob_match ''retr_*'' k \<Longrightarrow> capped_key k"
  by (auto simp: capped_key_def PENDING_QUEUE_def dest!: glob_match_literal)

lemma FAIL_QUEUE_not_capped: "\<not> capped_key (FAIL_QUEUE t)"
  by (simp add: capped_key_def FAIL_QUEUE_def glob_match_star)

lemma dequeue_batch_lengths:
  assumes "dequeue_batch source work n st = (batch, st')"
  shows "length (redis_lrange st' k) \<le> max (length (redis_lrange st k)) (nat n)"
    and "length batch \<le> max (length (redis_lrange st work)) (nat n)"
proof -
  have "length (redis_lrange st' k) \<le> max (length (redis_lrange st k)) (nat n) \<and>
      length batch \<le> max (length (redis_lrange st work)) (nat n)"
  proof (cases "redis_lrange st work = []")
    case False
    then show ?thesis using dequeue_batch_resume [OF False, of source n] assms by auto
  next
    case True
    show ?thesis
    proof (cases "redis_lrange st source = []")
      case True
      with \<open>redis_lrange st work = []\<close> assms show ?thesis
        using dequeue_batch_nothing [of st work source n] by auto
    next
      case False
      from dequeue_batch_move [OF True refl False, of n] assms
      have b: "batch = rev (drop (length (redis_lrange st source) - nat n) (redis_lrange st source))"
        and s: "redis_lrange st' source =
          take (length (redis_lrange st source) - nat n) (redis_lrange st source)"
        and d: "redis_lrange st' work =
          drop (length (redis_lrange st source) - nat n) (redis_lrange st source)"
        and o: "\<forall>q. q \<noteq> source \<and> q \<noteq> work \<longrightarrow> redis_lrange st' q = redis_lrange st q"
        by auto
      have "length (redis_lrange st' k) \<le> max (length (redis_lrange st k)) (nat n)"
      proof (cases "k = work")
        case True
        then show ?thesis using d by auto
      next
        case False
        then show ?thesis using s o by (cases "k = source") auto
      qed
      moreover have "length batch \<le> nat n" using b by auto
      ultimately show ?thesis by auto
    qed
  qed
  then show "length (redis_lrange st' k) \<le> max (length (redis_lrange st k)) (nat n)"
    and "length batch \<le> max (length (redis_lrange st work)) (nat n)"
    by simp_all
qed

lemma upload_posts_capped:
  assumes "posts_capped c w" and "int (length entries) \<le> get_batch_size c"
  shows "posts_capped c (snd (upload c e entries sf w))"
  using assms
  by (auto simp: posts_capped_def upload_def upload_request_def Let_def
      split: option.splits response.splits)

lemma upload_batch_cap:
  assumes "batch_cap c w" and "capped_key work"
  shows "batch_cap c (snd (upload_batch c e source work w))"
proof -
  obtain batch st where deq: "dequeue_batch source work (get_batch_size c) (db w) = (batch, st)"
    by (cases "dequeue_batch source work (get_batch_size c) (db w)")
  have qc: "queues_capped c st"
    using assms(1) dequeue_batch_lengths(1) [OF deq]
    unfolding batch_cap_def queues_capped_def by (meson le_trans max.bounded_iff order_refl)
  have bl: "length batch \<le> nat (get_batch_size c)"
    using assms dequeue_batch_lengths(2) [OF deq]
    unfolding batch_cap_def queues_capped_def by (meson le_trans max.bounded_iff order_refl)
  show ?thesis
  proof (cases "batch = []")
    case True
    with deq qc assms(1) show ?thesis
      by (simp add: upload_batch_def batch_cap_def posts_capped_def)
  next
    case False
    with bl have "int (length batch) \<le> get_batch_size c"
      by (cases batch) auto
    moreover have "posts_capped c (w\<lparr>db := st\<rparr>)"
      using assms(1) by (simp add: batch_cap_def posts_capped_def)
    ultimately have pc: "posts_capped c (snd (upload c e batch 1 (w\<lparr>db := st\<rparr>)))"
      by (rule upload_posts_capped [rotated])
    obtain r w2 where up: "upload c e batch 1 (w\<lparr>db := st\<rparr>) = (r, w2)"
      by (cases "upload c e batch 1 (w\<lparr>db := st\<rparr>)")
    have db2: "db w2 = st" using upload_world [OF up] by simp
    have q2: "queues_capped c (redis_delete (db w2) work)"
      using qc db2 by (simp add: queues_capped_def)
    from pc up have p2: "posts_capped c w2" by simp
    then have p3: "posts_capped c (w2\<lparr>db := redis_delete (db w2) work\<rparr>)"
      by (simp add: posts_capped_def)
    show ?thesis
      using deq False up qc db2 q2 p2 p3
      by (simp add: upload_batch_def batch_cap_def Let_def split: sum.split upload_ret.split)
  qed
qed

lemma continuing_loop_cap:
  assumes "continuing_loop c e source work ret res w = Some y"
  shows "batch_cap c w \<longrightarrow> capped_key work \<longrightarrow> batch_cap c (snd y)"
proof (rule continuing_loop.raw_induct
    [where P = "\<lambda>c e source work ret res w y. batch_cap c w \<longrightarrow> capped_key work \<longrightarrow> batch_cap c (snd y)",
      OF _ assms])
  fix f c e source work ret res w y
  assume IH: "\<And>c e source work ret res w y. f c e source work ret res w = Some y \<Longrightarrow>
      batch_cap c w \<longrightarrow> capped_key work \<longrightarrow> batch_cap c (snd y)"
    and body: "(if error res = None \<and> count res = get_batch_size c
      then case upload_batch c e source work w of
           (Inl ex, w1) \<Rightarrow> Some (Inl ex, w1)
           | (Inr res1, w1) \<Rightarrow> f c e source work (merge_ret ret res1) res1 w1
      else Some (Inr ret, w)) = Some y"
  show "batch_cap c w \<longrightarrow> capped_key work \<longrightarrow> batch_cap c (snd y)"
  proof (intro impI)
    assume inv: "batch_cap c w" and cw: "capped_key work"
    show "batch_cap c (snd y)"
    proof (cases "error res = None \<and> count res = get_batch_size c")
      case False
      with body inv show ?thesis by (auto split: if_splits)
    next
      case True
      obtain r w1 where ub: "upload_batch c e source work w = (r, w1)"
        by (cases "upload_batch c e source work w")
      have inv1: "batch_cap c w1"
        using upload_batch_cap [OF inv cw, of e source] ub by simp
      show ?thesis
      proof (cases r)
        case (Inl ex)
        with body True ub inv1 show ?thesis by auto
      next
        case (Inr res1)
        with body True ub
        have "f c e source work (merge_ret ret res1) res1 w1 = Some y" by simp
        from IH [OF this] inv1 cw show ?thesis by simp
      qed
    qed
  qed
qed

lemma upload_batch_continuing_cap:
  assumes "upload_batch_continuing c e source work w = Some y"
    and "batch_cap c w" and "capped_key work"
  shows "batch_cap c (snd y)"
proof -
  obtain r w1 where ub: "upload_batch c e source work w = (r, w1)"
    by (cases "upload_batch c e source work w")
  have inv1: "batch_cap c w1"
    using upload_batch_cap [OF assms(2,3), of e source] ub by simp
  show ?thesis
  proof (cases r)
    case (Inl ex)
    with assms(1) ub inv1 show ?thesis by (auto simp: upload_batch_continuing_def)
  next
    case (Inr res)
    with assms(1) ub
    have "continuing_loop c e source work (merge_ret \<lparr>count = 0, error = None\<rparr> res) res w1 = Some y"
      by (simp add: upload_batch_continuing_def)
    from continuing_loop_cap [OF this] inv1 assms(3) show ?thesis by simp
  qed
qed

lemma renamenx_cap:
  assumes "redis_renamenx st src dst = Inr (b, st')" and "queues_capped c st" and "capped_key src"
  shows "queues_capped c st'"
proof (cases "redis_lrange st dst = []")
  case False
  with assms show ?thesis
    by (auto simp: redis_renamenx_def redis_exists_def split: if_splits)
next
  case True
  show ?thesis
  proof (cases "redis_lrange st src = []")
    case True
    with assms(1) show ?thesis by (simp add: renamenx_missing)
  next
    case False
    from renamenx_moves [OF False True] assms(1)
    have "redis_lrange st' dst = redis_lrange st src" "redis_lrange st' src = []"
      "\<forall>k. k \<noteq> src \<and> k \<noteq> dst \<longrightarrow> redis_lrange st' k = redis_lrange st k"
      by auto
    with assms(2,3) show ?thesis
      unfolding queues_capped_def by (metis list.size(3) zero_le)
  qed
qed

lemma upload_pending_cap:
  assumes "upload_pending c e w = Some y" and "batch_cap c w"
  shows "batch_cap c (snd y)"
proof -
  obtain r w1 where ubc:
    "upload_batch_continuing c e PENDING_QUEUE PENDING_WORK_QUEUE w = Some (r, w1)"
    using assms(1) by (auto simp: upload_pending_def Let_def split: option.splits)
  have inv1: "batch_cap c w1"
    using upload_batch_continuing_cap [OF ubc assms(2) capped_work_queues(1)] by simp
  show ?thesis
  proof (cases r)
    case (Inr res)
    with assms(1) ubc inv1 show ?thesis by (auto simp: upload_pending_def Let_def)
  next
    case (Inl ex)
    show ?thesis
    proof (cases ex)
      case (ResponseError x)
      with assms(1) ubc Inl inv1 show ?thesis by (auto simp: upload_pending_def Let_def)
    next
      case (HTTPError rex)
      let ?w2 = "w1\<lparr>ticks := Suc (ticks w1)\<rparr>"
      let ?rq = "RETRY_QUEUE (clock e (ticks w1)) 0"
      have inv2: "batch_cap c ?w2"
        using inv1 by (simp add: batch_cap_def posts_capped_def)
      show ?thesis
      proof (cases "redis_renamenx (db w1) PENDING_WORK_QUEUE ?rq")
        case (Inl ex')
        with assms(1) ubc \<open>r = Inl ex\<close> HTTPError inv2 show ?thesis
          by (auto simp: upload_pending_def Let_def utcnow_def)
      next
        case (Inr p)
        obtain b st where p: "p = (b, st)" by (cases p)
        have "queues_capped c st"
          using renamenx_cap [OF Inr [unfolded p] _ capped_work_queues(1)] inv1
          by (simp add: batch_cap_def)
        then have "batch_cap c (?w2\<lparr>db := st\<rparr>)"
          using inv2 by (simp add: batch_cap_def posts_capped_def)
        with assms(1) ubc \<open>r = Inl ex\<close> HTTPError Inr p show ?thesis
          by (auto simp: upload_pending_def Let_def utcnow_def)
      qed
    qed
  qed
qed

lemma failing_loop_cap:
  assumes "failing_loop c e queues ret w = Some y" and "batch_cap c w"
  shows "batch_cap c (snd y)"
  using assms
proof (induction queues arbitrary: ret w)
  case Nil
  then show ?case by auto
next
  case (Cons queue queues)
  obtain r w1 where ubc: "upload_batch_continuing c e queue FAIL_WORK_QUEUE w = Some (r, w1)"
    using Cons.prems(1) by (auto split: option.splits)
  have inv1: "batch_cap c w1"
    using upload_batch_continuing_cap [OF ubc Cons.prems(2) capped_work_queues(2)] by simp
  show ?case
  proof (cases r)
    case (Inl ex)
    with Cons.prems(1) ubc inv1 show ?thesis by (cases ex) auto
  next
    case (Inr res)
    show ?thesis
    proof (cases "error res")
      case (Some msg)
      with Cons.prems(1) ubc Inr inv1 show ?thesis by (auto simp: Let_def)
    next
      case None
      with Cons.prems(1) ubc Inr
      have "failing_loop c e queues (ret\<lparr>total := total ret + count res\<rparr>) w1 = Some y"
        by (simp add: Let_def)
      from Cons.IH [OF this inv1] show ?thesis .
    qed
  qed
qed

lemma upload_failing_cap:
  "upload_failing c e w = Some y \<Longrightarrow> batch_cap c w \<Longrightarrow> batch_cap c (snd y)"
  using failing_loop_cap by (simp add: upload_failing_def Let_def)

lemma retry_failed_cap:
  assumes "batch_cap c w" and "capped_key queue"
  shows "batch_cap c (snd (retry_failed c e queue attempt entries w))"
proof -
  from assms(1) have qc: "queues_capped c (db w)" and pc: "posts_capped c w"
    by (simp_all add: batch_cap_def)
  have posts: "posts_capped c (snd (retry_failed c e queue attempt entries w))"
    using pc by (simp add: posts_capped_def)
  have "queues_capped c (db (snd (retry_failed c e queue attempt entries w)))"
  proof (cases "get_max_retry c \<le> attempt")
    case True
    let ?fq = "FAIL_QUEUE (clock e (ticks w))"
    have "queues_capped c (redis_delete (redis_expire (redis_lpush (db w) ?fq entries) ?fq
        (get_fail_ttl c)) queue)"
      using qc FAIL_QUEUE_not_capped [of "clock e (ticks w)"]
      by (auto simp: queues_capped_def)
    with True qc show ?thesis
      by (simp add: retry_failed_def utcnow_def pipeline_lpush_expire_delete_def Let_def)
  next
    case False
    show ?thesis
    proof (cases "redis_renamenx (db w) queue (re_sub_attempt (''_#'' @ str_int attempt) queue)")
      case (Inl ex)
      with False qc show ?thesis by (simp add: retry_failed_def Let_def)
    next
      case (Inr p)
      obtain b st where p: "p = (b, st)" by (cases p)
      from renamenx_cap [OF Inr [unfolded p] qc assms(2)] False Inr p show ?thesis
        by (simp add: retry_failed_def Let_def)
    qed
  qed
  with posts show ?thesis by (simp add: batch_cap_def)
qed

lemma retrying_loop_cap:
  assumes "batch_cap c w" and "\<forall>q\<in>set queues. capped_key q"
    and "0 \<le> get_batch_size c \<or> queues = []"
  shows "batch_cap c (snd (retrying_loop c e queues remaining ret w))"
  using assms
proof (induction queues arbitrary: remaining ret w)
  case Nil
  then show ?case by simp
next
  case (Cons queue queues)
  from Cons.prems have rest: "\<forall>q\<in>set queues. capped_key q" and cq: "capped_key queue"
    and bs: "0 \<le> get_batch_size c" and rest': "0 \<le> get_batch_size c \<or> queues = []"
    by simp_all
  show ?case
  proof (cases "RETRY_QUEUE_REGEX_match queue")
    case None
    then show ?thesis using Cons.IH [OF Cons.prems(1) rest rest'] by simp
  next
    case (Some m)
    let ?entries = "redis_lrange (db w) queue"
    obtain r w1 where up: "upload c e ?entries remaining w = (r, w1)"
      by (cases "upload c e ?entries remaining w")
    note w1 = upload_world [OF up]
    from Cons.prems(1) cq have "length ?entries \<le> nat (get_batch_size c)"
      by (simp add: batch_cap_def queues_capped_def)
    with bs have "int (length ?entries) \<le> get_batch_size c" by simp
    with Cons.prems(1) have "posts_capped c (snd (upload c e ?entries remaining w))"
      by (simp add: batch_cap_def upload_posts_capped)
    with up w1 Cons.prems(1) have inv1: "batch_cap c w1"
      by (simp add: batch_cap_def)
    show ?thesis
    proof (cases r)
      case (Inr u)
      show ?thesis
      proof (cases u)
        case Uploaded
        have "batch_cap c (w1\<lparr>db := redis_delete (db w1) queue\<rparr>)"
          using inv1 by (simp add: batch_cap_def queues_capped_def posts_capped_def)
        from Cons.IH [OF this rest rest']
          retrying_loop_uploaded [OF Some up [unfolded Inr Uploaded]]
        show ?thesis by simp
      next
        case (Unable msg)
        with retrying_loop_unable [OF Some up [unfolded Inr Unable]] inv1 show ?thesis by simp
      qed
    next
      case (Inl ex)
      show ?thesis
      proof (cases ex)
        case (ResponseError x)
        then show ?thesis
          using upload_not_response_error [of c e ?entries remaining w x] up Inl by simp
      next
        case (HTTPError rex)
        let ?a = "int (int_of_digits (attempt_group m)) + 1"
        obtain h w2 where rf: "retry_failed c e queue ?a ?entries w1 = (h, w2)"
          by (cases "retry_failed c e queue ?a ?entries w1")
        have inv2: "batch_cap c w2"
          using retry_failed_cap [OF inv1 cq, of e ?a ?entries] rf by simp
        note step = retrying_loop_server_error [OF Some up [unfolded Inl HTTPError]]
        show ?thesis
        proof (cases h)
          case (Inl ex')
          with step rf inv2 show ?thesis by simp
        next
          case (Inr u)
          from Cons.IH [OF inv2 rest rest'] step rf Inr show ?thesis by simp
        qed
      qed
    qed
  qed
qed

lemma upload_retrying_cap:
  assumes "batch_cap c w"
  shows "batch_cap c (snd (upload_retrying c e w))"
proof -
  let ?qs = "list_queues (db w) ''retr_*'' False"
  have capped: "\<forall>q\<in>set ?qs. capped_key q"
    by (simp add: list_queues_member capped_retry_key)
  have "0 \<le> get_batch_size c \<or> ?qs = []"
  proof (cases "?qs")
    case Nil
    then show ?thesis by simp
  next
    case (Cons q qs)
    then have "q \<in> set ?qs" by simp
    then have "redis_lrange (db w) q \<noteq> []" and "capped_key q"
      by (simp_all add: list_queues_member capped_retry_key)
    with assms have "length (redis_lrange (db w) q) \<le> nat (get_batch_size c)"
      and "0 < length (redis_lrange (db w) q)"
      by (simp_all add: batch_cap_def queues_capped_def)
    then have "0 < nat (get_batch_size c)" by linarith
    then show ?thesis by simp
  qed
  from retrying_loop_cap [OF assms capped this] show ?thesis
    by (simp add: upload_retrying_def Let_def)
qed

lemma enqueue_cap: "batch_cap c w \<Longrightarrow> batch_cap c (enqueue data w)"
  by (simp add: batch_cap_def queues_capped_def posts_capped_def enqueue_def capped_key_def)

lemma start_cap: "batch_cap c start"
  by (simp add: batch_cap_def queues_capped_def posts_capped_def start_def no_queues_def
      redis_lrange_def)

section \<open>The drive operations return\<close>

text \<open>
  With a batch size other than 0 the loop of \<open>_upload_batch_continuing\<close> ends: a further
  round needs a full batch uploaded, which empties the work queue and, from the second
  round on, takes its entries from the source.
\<close>

lemma upload_batch_progress:
  assumes "upload_batch c e source work w = (Inr res, w1)"
    and "error res = None" and "count res = get_batch_size c" and "get_batch_size c \<noteq> 0"
  shows "backlog source work w1 < backlog source work w"
proof -
  obtain batch st where deq: "dequeue_batch source work (get_batch_size c) (db w) = (batch, st)"
    by (cases "dequeue_batch source work (get_batch_size c) (db w)")
  have ne: "batch \<noteq> []"
    using assms deq by (auto simp: upload_batch_def)
  obtain r w2 where up: "upload c e batch 1 (w\<lparr>db := st\<rparr>) = (r, w2)"
    by (cases "upload c e batch 1 (w\<lparr>db := st\<rparr>)")
  have db2: "db w2 = st" using upload_world [OF up] by simp
  have w1: "w1 = w2\<lparr>db := redis_delete (db w2) work\<rparr>"
    using assms(1,2) deq ne up
    by (auto simp: upload_batch_def Let_def split: sum.splits upload_ret.splits)
  have work1: "redis_lrange (db w1) work = []" using w1 by simp
  have src1: "length (redis_lrange (db w1) source) \<le> length (redis_lrange st source)"
    using w1 db2 by simp
  show ?thesis
  proof (cases "redis_lrange (db w) work = []")
    case False
    with dequeue_batch_resume [OF False, of source "get_batch_size c"] deq
    have "st = db w" by simp
    with False work1 src1 show ?thesis by (simp add: backlog_def)
  next
    case True
    show ?thesis
    proof (cases "redis_lrange (db w) source = []")
      case True
      with \<open>redis_lrange (db w) work = []\<close> deq ne show ?thesis
        using dequeue_batch_nothing [of "db w" work source "get_batch_size c"] by simp
    next
      case False
      let ?xs = "redis_lrange (db w) source"
      from dequeue_batch_move [OF True refl False, of "get_batch_size c"] deq
      have b: "batch = rev (drop (length ?xs - nat (get_batch_size c)) ?xs)"
        and s: "redis_lrange st source = take (length ?xs - nat (get_batch_size c)) ?xs"
        by auto
      from b ne have "length ?xs - nat (get_batch_size c) < length ?xs" by auto
      with s have "length (redis_lrange st source) < length ?xs" by simp
      with src1 work1 True show ?thesis by (simp add: backlog_def)
    qed
  qed
qed

lemma continuing_loop_returns:
  assumes "get_batch_size c \<noteq> 0"
  shows "\<exists>y. continuing_loop c e source work ret res w = Some y"
proof (induction "backlog source work w" arbitrary: ret res w rule: less_induct)
  case less
  show ?case
  proof (cases "error res = None \<and> count res = get_batch_size c")
    case False
    then show ?thesis by (subst continuing_loop.simps) auto
  next
    case True
    obtain r w1 where ub: "upload_batch c e source work w = (r, w1)"
      by (cases "upload_batch c e source work w")
    show ?thesis
    proof (cases r)
      case (Inl ex)
      with True ub show ?thesis by (subst continuing_loop.simps) simp
    next
      case (Inr res1)
      have "\<exists>y. continuing_loop c e source work (merge_ret ret res1) res1 w1 = Some y"
      proof (cases "error res1 = None \<and> count res1 = get_batch_size c")
        case False
        then show ?thesis by (subst continuing_loop.simps) auto
      next
        case True
        with upload_batch_progress [OF ub [unfolded Inr] _ _ assms]
        have "backlog source work w1 < backlog source work w" by simp
        from less [OF this] show ?thesis .
      qed
      with True ub Inr show ?thesis by (subst continuing_loop.simps) simp
    qed
  qed
qed

lemma upload_batch_continuing_returns:
  "get_batch_size c \<noteq> 0 \<Longrightarrow> \<exists>y. upload_batch_continuing c e source work w = Some y"
  using continuing_loop_returns
  by (simp add: upload_batch_continuing_def split: prod.split sum.split)

lemma upload_pending_returns:
  assumes "get_batch_size c \<noteq> 0"
  shows "\<exists>y. upload_pending c e w = Some y"
proof -
  from upload_batch_continuing_returns [OF assms] obtain y where
    "upload_batch_continuing c e PENDING_QUEUE PENDING_WORK_QUEUE w = Some y" by blast
  then show ?thesis
    by (simp add: upload_pending_def Let_def utcnow_def
        split: prod.split sum.split error.split)
qed

lemma failing_loop_returns:
  assumes "get_batch_size c \<noteq> 0"
  shows "\<exists>y. failing_loop c e queues ret w = Some y"
proof (induction queues arbitrary: ret w)
  case Nil
  show ?case by simp
next
  case (Cons queue queues)
  from upload_batch_continuing_returns [OF assms] obtain y where
    y: "upload_batch_continuing c e queue FAIL_WORK_QUEUE w = Some y" by blast
  show ?case
    using y Cons.IH
    by (simp add: Let_def split: prod.split sum.split error.split option.split)
qed

lemma upload_failing_returns:
  "get_batch_size c \<noteq> 0 \<Longrightarrow> \<exists>y. upload_failing c e w = Some y"
  using failing_loop_returns by (simp add: upload_failing_def Let_def)

text \<open>
  With a batch size of 0 and nothing to upload the loop never ends: every round returns a
  count of 0, which is the batch size.
\<close>

lemma upload_batch_idle:
  assumes "redis_lrange (db w) source = []" and "redis_lrange (db w) work = []"
  shows "upload_batch c e source work w = (Inr \<lparr>count = 0, error = None\<rparr>, w)"
  using assms dequeue_batch_nothing [of "db w" work source "get_batch_size c"]
  by (simp add: upload_batch_def)

lemma continuing_loop_forever:
  assumes "get_batch_size c = 0" and "count res = 0" and "error res = None"
    and "redis_lrange (db w) source = []" and "redis_lrange (db w) work = []"
  shows "continuing_loop c e source work ret res w = None"
proof (rule ccontr)
  assume "continuing_loop c e source work ret res w \<noteq> None"
  then obtain y where y: "continuing_loop c e source work ret res w = Some y" by auto
  have "get_batch_size c = 0 \<longrightarrow> count res = 0 \<longrightarrow> error res = None \<longrightarrow>
      redis_lrange (db w) source = [] \<longrightarrow> redis_lrange (db w) work = [] \<longrightarrow> False"
  proof (rule continuing_loop.raw_induct
      [where P = "\<lambda>c e source work ret res w y. get_batch_size c = 0 \<longrightarrow> count res = 0 \<longrightarrow>
          error res = None \<longrightarrow> redis_lrange (db w) source = [] \<longrightarrow>
          redis_lrange (db w) work = [] \<longrightarrow> False", OF _ y])
    fix f c e source work ret res w y
    assume IH: "\<And>c e source work ret res w y. f c e source work ret res w = Some y \<Longrightarrow>
        get_batch_size c = 0 \<longrightarrow> count res = 0 \<longrightarrow> error res = None \<longrightarrow>
        redis_lrange (db w) source = [] \<longrightarrow> redis_lrange (db w) work = [] \<longrightarrow> False"
      and body: "(if error res = None \<and> count res = get_batch_size c
        then case upload_batch c e source work w of
             (Inl ex, w1) \<Rightarrow> Some (Inl ex, w1)
             | (Inr res1, w1) \<Rightarrow> f c e source work (merge_ret ret res1) res1 w1
        else Some (Inr ret, w)) = Some y"
    show "get_batch_size c = 0 \<longrightarrow> count res = 0 \<longrightarrow> error res = None \<longrightarrow>
        redis_lrange (db w) source = [] \<longrightarrow> redis_lrange (db w) work = [] \<longrightarrow> False"
    proof (intro impI)
      assume a: "get_batch_size c = 0" "count res = 0" "error res = None"
        "redis_lrange (db w) source = []" "redis_lrange (db w) work = []"
      from body a upload_batch_idle [OF a(4,5), of c e]
      have "f c e source work (merge_ret ret \<lparr>count = 0, error = None\<rparr>)
          \<lparr>count = 0, error = None\<rparr> w = Some y"
        by simp
      from IH [OF this] a show False by simp
    qed
  qed
  with assms show False by simp
qed

lemma upload_pending_forever:
  assumes "get_batch_size c = 0"
  shows "upload_pending c e start = None"
proof -
  have "redis_lrange (db start) PENDING_QUEUE = []" "redis_lrange (db start) PENDING_WORK_QUEUE = []"
    by (simp_all add: start_def no_queues_def redis_lrange_def)
  then show ?thesis
    using assms
    by (simp add: upload_pending_def upload_batch_continuing_def upload_batch_idle
        continuing_loop_forever)
qed

section \<open>Reachable states\<close>

lemma run_cap: "run c ops w = Some w' \<Longrightarrow> batch_cap c w \<Longrightarrow> batch_cap c w'"
proof (induction ops arbitrary: w)
  case Nil
  then show ?case by simp
next
  case (Cons op ops)
  show ?case
  proof (cases op)
    case (Enqueue data)
    with Cons.prems Cons.IH [of "enqueue data w"] enqueue_cap [OF Cons.prems(2), of data]
    show ?thesis by simp
  next
    case (Upload_pending e)
    with Cons.prems(1) obtain r w1 where y: "upload_pending c e w = Some (r, w1)"
      and rest: "run c ops w1 = Some w'"
      by (auto split: option.splits)
    from upload_pending_cap [OF y Cons.prems(2)] Cons.IH [OF rest] show ?thesis by simp
  next
    case (Upload_retrying e)
    with Cons.prems(1) obtain r w1 where y: "upload_retrying c e w = (r, w1)"
      and rest: "run c ops w1 = Some w'"
      by (auto split: prod.splits)
    from upload_retrying_cap [OF Cons.prems(2), of e] y Cons.IH [OF rest] show ?thesis by simp
  next
    case (Upload_failing e)
    with Cons.prems(1) obtain r w1 where y: "upload_failing c e w = Some (r, w1)"
      and rest: "run c ops w1 = Some w'"
      by (auto split: option.splits)
    from upload_failing_cap [OF y Cons.prems(2)] Cons.IH [OF rest] show ?thesis by simp
  qed
qed

lemma run_returns:
  assumes "get_batch_size c \<noteq> 0"
  shows "\<exists>w'. run c ops w = Some w'"
proof (induction ops arbitrary: w)
  case Nil
  show ?case by simp
next
  case (Cons op ops)
  show ?case
  proof (cases op)
    case (Enqueue data)
    with Cons.IH [of "enqueue data w"] show ?thesis by simp
  next
    case (Upload_pending e)
    from upload_pending_returns [OF assms, of e w] obtain r w1 where
      "upload_pending c e w = Some (r, w1)" by auto
    with Upload_pending Cons.IH [of w1] show ?thesis by simp
  next
    case (Upload_retrying e)
    obtain r w1 where "upload_retrying c e w = (r, w1)" by (cases "upload_retrying c e w")
    with Upload_retrying Cons.IH [of w1] show ?thesis by simp
  next
    case (Upload_failing e)
    from upload_failing_returns [OF assms, of e w] obtain r w1 where
      "upload_failing c e w = Some (r, w1)" by auto
    with Upload_failing Cons.IH [of w1] show ?thesis by simp
  qed
qed

text \<open>
  C9. After every history from the empty store, no request sent so far (by
  \<open>upload_pending\<close>, \<open>upload_retrying\<close> or \<open>upload_failing\<close>) carries more than \<open>batch_size\<close>
  entries, and no retry queue, nor \<open>pend.work\<close> or \<open>fail.work\<close>, holds more than
  \<open>batch_size\<close> entries, so that the full read of a retry queue respects the cap. With a
  batch size other than 0 every history reaches a state.
\<close>

theorem batch_cap_invariant:
  "(\<forall>w. run c ops start = Some w \<longrightarrow>
      (\<forall>p\<in>set (posts w). int (length (fst p)) \<le> get_batch_size c) \<and>
      (\<forall>q\<in>set (list_queues (db w) ''retr_*'' False).
         int (length (redis_lrange (db w) q)) \<le> get_batch_size c) \<and>
      length (redis_lrange (db w) PENDING_WORK_QUEUE) \<le> nat (get_batch_size c) \<and>
      length (redis_lrange (db w) FAIL_WORK_QUEUE) \<le> nat (get_batch_size c)) \<and>
   (get_batch_size c \<noteq> 0 \<longrightarrow> (\<exists>w. run c ops start = Some w))"
proof (intro conjI allI impI)
  fix w
  assume "run c ops start = Some w"
  from run_cap [OF this start_cap] have qc: "queues_capped c (db w)" and pc: "posts_capped c w"
    by (simp_all add: batch_cap_def)
  from pc show "\<forall>p\<in>set (posts w). int (length (fst p)) \<le> get_batch_size c"
    by (simp add: posts_capped_def)
  show "\<forall>q\<in>set (list_queues (db w) ''retr_*'' False).
         int (length (redis_lrange (db w) q)) \<le> get_batch_size c"
  proof
    fix q
    assume "q \<in> set (list_queues (db w) ''retr_*'' False)"
    then have "redis_lrange (db w) q \<noteq> []" and "capped_key q"
      by (simp_all add: list_queues_member capped_retry_key)
    with qc have "length (redis_lrange (db w) q) \<le> nat (get_batch_size c)"
      and "0 < length (redis_lrange (db w) q)"
      by (simp_all add: queues_capped_def)
    then show "int (length (redis_lrange (db w) q)) \<le> get_batch_size c" by linarith
  qed
  from qc capped_work_queues
  show "length (redis_lrange (db w) PENDING_WORK_QUEUE) \<le> nat (get_batch_size c)"
    and "length (redis_lrange (db w) FAIL_WORK_QUEUE) \<le> nat (get_batch_size c)"
    by (simp_all add: queues_capped_def)
next
  assume "get_batch_size c \<noteq> 0"
  then show "\<exists>w. run c ops start = Some w" by (rule run_returns)
qed

lemma run_three_then_drive:
  "run pairs three_then_drive start =
     Some \<lparr>db = no_queues,
           posts = [([''1'', ''2''], post_request cloud [''1'', ''2'']),
                    ([''3''], post_request cloud [''3''])],
           calls = [([''1'', ''2''], 1, Inr Uploaded), ([''3''], 1, Inr Uploaded)],
           ticks = 0\<rparr>"
proof -
  let ?e = "answering (Response 200 ''OK'')"
  have ep: "endpoint pairs = Some cloud" by (simp add: pairs_def default_options_def)
  have bs: "get_batch_size pairs = 2" by (simp add: pairs_def get_batch_size_def)
  have ok: "net ?e i r = Response 200 ''OK''" for i r
    by (simp add: answering_def always_def)
  have ne: "PENDING_QUEUE \<noteq> PENDING_WORK_QUEUE" "PENDING_WORK_QUEUE \<noteq> PENDING_QUEUE"
    by (simp_all add: PENDING_QUEUE_def PENDING_WORK_QUEUE_def)
  have d1: "dequeue_batch PENDING_QUEUE PENDING_WORK_QUEUE 2
      \<lparr>keyspace = [(PENDING_QUEUE, [''3'', ''2'', ''1''])], expiry = []\<rparr> =
      ([''1'', ''2''],
       \<lparr>keyspace = [(PENDING_QUEUE, [''3'']), (PENDING_WORK_QUEUE, [''2'', ''1''])], expiry = []\<rparr>)"
    using ne
    by (simp add: dequeue_batch_def DEQUEUE_BATCH_LUA_def redis_exists_def redis_lrange_def
        redis_rpoplpush_def redis_lpush_def set_list_def redis_delete_def numeral_2_eq_2 Let_def)
  have d2: "dequeue_batch PENDING_QUEUE PENDING_WORK_QUEUE 2
      \<lparr>keyspace = [(PENDING_QUEUE, [''3''])], expiry = []\<rparr> =
      ([''3''], \<lparr>keyspace = [(PENDING_WORK_QUEUE, [''3''])], expiry = []\<rparr>)"
    using dequeue_single [of 2 PENDING_QUEUE PENDING_WORK_QUEUE "''3''"] ne by simp
  have u1: "upload_batch pairs ?e PENDING_QUEUE PENDING_WORK_QUEUE
      (enqueue ''3'' (enqueue ''2'' (enqueue ''1'' start))) =
      (Inr \<lparr>count = 2, error = None\<rparr>,
       \<lparr>db = \<lparr>keyspace = [(PENDING_QUEUE, [''3''])], expiry = []\<rparr>,
        posts = [([''1'', ''2''], post_request cloud [''1'', ''2''])],
        calls = [([''1'', ''2''], 1, Inr Uploaded)], ticks = 0\<rparr>)"
    using ne
    by (simp add: upload_batch_def enqueue_three bs d1 upload_response [OF ep] ok
        raise_for_status_def Let_def redis_delete_def)
  have u2: "upload_batch pairs ?e PENDING_QUEUE PENDING_WORK_QUEUE
       \<lparr>db = \<lparr>keyspace = [(PENDING_QUEUE, [''3''])], expiry = []\<rparr>,
        posts = [([''1'', ''2''], post_request cloud [''1'', ''2''])],
        calls = [([''1'', ''2''], 1, Inr Uploaded)], ticks = 0\<rparr> =
      (Inr \<lparr>count = 1, error = None\<rparr>,
       \<lparr>db = no_queues,
        posts = [([''1'', ''2''], post_request cloud [''1'', ''2'']),
                 ([''3''], post_request cloud [''3''])],
        calls = [([''1'', ''2''], 1, Inr Uploaded), ([''3''], 1, Inr Uploaded)], ticks = 0\<rparr>)"
    by (simp add: upload_batch_def bs d2 upload_response [OF ep] ok
        raise_for_status_def Let_def redis_delete_def no_queues_def)
  have "upload_pending pairs ?e (enqueue ''3'' (enqueue ''2'' (enqueue ''1'' start))) =
      Some (Inr \<lparr>total = 3, errors = None, is_overrun = None\<rparr>,
       \<lparr>db = no_queues,
        posts = [([''1'', ''2''], post_request cloud [''1'', ''2'']),
                 ([''3''], post_request cloud [''3''])],
        calls = [([''1'', ''2''], 1, Inr Uploaded), ([''3''], 1, Inr Uploaded)], ticks = 0\<rparr>)"
    by (simp add: upload_pending_def upload_batch_continuing_def u1 u2 bs merge_ret_def
        continuing_loop.simps)
  then show ?thesis by (simp add: three_then_drive_def)
qed

theorem batch_cap_invariant_witness:
  "get_batch_size pairs = 2 \<and>
   (\<exists>w. run pairs three_then_drive start = Some w \<and>
        requests_sent (Some ((), w)) = Some [([''1'', ''2''], ''[1, 2]''), ([''3''], ''[3]'')] \<and>
        (\<forall>p\<in>set (posts w). int (length (fst p)) \<le> get_batch_size pairs))"
proof -
  have bs: "get_batch_size pairs = 2" by (simp add: pairs_def get_batch_size_def)
  from batch_cap_invariant [of pairs three_then_drive] run_three_then_drive
  have "\<forall>p\<in>set (posts \<lparr>db = no_queues,
           posts = [([''1'', ''2''], post_request cloud [''1'', ''2'']),
                    ([''3''], post_request cloud [''3''])],
           calls = [([''1'', ''2''], 1, Inr Uploaded), ([''3''], 1, Inr Uploaded)],
           ticks = 0\<rparr>). int (length (fst p)) \<le> get_batch_size pairs"
    by blast
  with bs run_three_then_drive show ?thesis
    by (simp add: requests_sent_def post_request_def payload_def)
qed

end
